theory Spec2Isabelle
  imports Main
begin

section \<open>Strings\<close>

text \<open>
  A Python \<^verbatim>\<open>str\<close> is a sequence of Unicode code points; it is modelled as a list of
  natural numbers, one per code point.  \<open>lit\<close> turns an ASCII literal into such a list.
\<close>

type_synonym pystr = "nat list"

definition lit :: "string \<Rightarrow> pystr" where
  "lit s = map of_char s"

text \<open>
  The character classes of non-ASCII code points come from the Unicode database that the
  Python interpreter ships, which is not part of the repository.  They are a parameter of
  the model: \<open>uni_alnum\<close> is \<^verbatim>\<open>str.isalnum\<close> on code points from 128 on, and
  \<open>uni_decimal\<close> gives the digit value of the code points from 128 on that belong to
  category Nd (what \<^verbatim>\<open>\d\<close> matches and \<^verbatim>\<open>int\<close> accepts).  On ASCII both
  classes are fixed.
\<close>

record unicode_db =
  uni_alnum :: "nat \<Rightarrow> bool"
  uni_decimal :: "nat \<Rightarrow> nat option"

definition ascii_isalnum :: "nat \<Rightarrow> bool" where
  "ascii_isalnum c = ((48 \<le> c \<and> c \<le> 57) \<or> (65 \<le> c \<and> c \<le> 90) \<or> (97 \<le> c \<and> c \<le> 122))"

definition isalnum :: "unicode_db \<Rightarrow> nat \<Rightarrow> bool" where
  "isalnum U c = (if c < 128 then ascii_isalnum c else uni_alnum U c)"

text \<open>
  \<^verbatim>\<open>str.strip()\<close> without argument removes the code points for which
  \<^verbatim>\<open>str.isspace\<close> holds from both ends.
\<close>

definition isspace :: "nat \<Rightarrow> bool" where
  "isspace c = ((9 \<le> c \<and> c \<le> 13) \<or> (28 \<le> c \<and> c \<le> 32) \<or> c = 133 \<or> c = 160
      \<or> c = 5760 \<or> (8192 \<le> c \<and> c \<le> 8202) \<or> c = 8232 \<or> c = 8233 \<or> c = 8239
      \<or> c = 8287 \<or> c = 12288)"

definition lstrip :: "pystr \<Rightarrow> pystr" where
  "lstrip s = dropWhile isspace s"

definition rstrip :: "pystr \<Rightarrow> pystr" where
  "rstrip s = rev (dropWhile isspace (rev s))"

definition strip :: "pystr \<Rightarrow> pystr" where
  "strip s = rstrip (lstrip s)"

definition startswith :: "pystr \<Rightarrow> pystr \<Rightarrow> bool" where
  "startswith s p = (take (length p) s = p)"

section \<open>Naming policy\<close>

text \<open>
  \<^verbatim>\<open>
  def sanitize_folder_name(name):
      return "".join(c if c.isalnum() or c in (' ', '_') else "_" for c in name).strip()
  \<close>
  Code point 32 is the space and 95 the underscore.
\<close>

definition keep_char :: "unicode_db \<Rightarrow> nat \<Rightarrow> bool" where
  "keep_char U c = (isalnum U c \<or> c = 32 \<or> c = 95)"

definition sanitize_char :: "unicode_db \<Rightarrow> nat \<Rightarrow> nat" where
  "sanitize_char U c = (if keep_char U c then c else 95)"

definition sanitize_folder_name :: "unicode_db \<Rightarrow> pystr \<Rightarrow> pystr" where
  "sanitize_folder_name U name = strip (map (sanitize_char U) name)"

text \<open>
  \<^verbatim>\<open>str(page)\<close> inside the f-strings: the decimal numeral of a Python integer.  Code
  point 48 is the digit zero and 45 the minus sign.
\<close>

function str_nat :: "nat \<Rightarrow> pystr" where
  "str_nat n = (if n < 10 then [48 + n] else str_nat (n div 10) @ [48 + n mod 10])"
  by pat_completeness auto
termination
  by (relation "measure (\<lambda>n. n)") auto

definition str_int :: "int \<Rightarrow> pystr" where
  "str_int i = (if i < 0 then 45 # str_nat (nat (- i)) else str_nat (nat i))"

text \<open>
  \<^verbatim>\<open>os.path.join\<close> with two arguments, as \<^verbatim>\<open>posixpath\<close> defines it (code point 47
  is the slash):
  \<^verbatim>\<open>
  if b.startswith(sep): path = b
  elif not path or path.endswith(sep): path += b
  else: path += sep + b
  \<close>
\<close>

definition os_path_join :: "pystr \<Rightarrow> pystr \<Rightarrow> pystr" where
  "os_path_join a b =
     (if startswith b [47] then b
      else if a = [] \<or> last a = 47 then a @ b
      else a @ [47] @ b)"

text \<open>
  The destination of an image card, lines 100 to 102:
  \<^verbatim>\<open>
  image_name = sanitize_folder_name(f"{page}_{image_name}")
  image_name += ".jpg"
  image_details.append((image_url, os.path.join(album_folder, image_name)))
  \<close>
\<close>

definition image_file_name :: "unicode_db \<Rightarrow> int \<Rightarrow> pystr \<Rightarrow> pystr" where
  "image_file_name U page image_name =
     sanitize_folder_name U (str_int page @ lit ''_'' @ image_name) @ lit ''.jpg''"

definition card_save_path :: "unicode_db \<Rightarrow> pystr \<Rightarrow> int \<Rightarrow> pystr \<Rightarrow> pystr" where
  "card_save_path U album_folder page image_name =
     os_path_join album_folder (image_file_name U page image_name)"

section \<open>Parsed documents\<close>

text \<open>
  \<^verbatim>\<open>BeautifulSoup(response.text, "html.parser")\<close> yields a tree of tags and strings.  The
  model starts from that tree: an element has a name, its attributes (a dictionary, here
  an association list read with \<open>map_of\<close>) and its children.
\<close>

datatype node = Text pystr | Element pystr "(pystr \<times> pystr) list" "node list"

text \<open>The descendants of a node in document order, which is the order \<^verbatim>\<open>find_all\<close> scans.\<close>

fun descendants :: "node \<Rightarrow> node list" where
  "descendants (Text s) = []"
| "descendants (Element name attrs children) =
     concat (map (\<lambda>c. c # descendants c) children)"

definition soup_find_all :: "(node \<Rightarrow> bool) \<Rightarrow> node \<Rightarrow> node list" where
  "soup_find_all matches n = filter matches (descendants n)"

text \<open>\<^verbatim>\<open>find\<close> is the first result of \<^verbatim>\<open>find_all\<close>, or \<^verbatim>\<open>None\<close>.\<close>

definition soup_find :: "(node \<Rightarrow> bool) \<Rightarrow> node \<Rightarrow> node option" where
  "soup_find matches n = (case soup_find_all matches n of [] \<Rightarrow> None | x # _ \<Rightarrow> Some x)"

definition is_tag :: "pystr \<Rightarrow> node \<Rightarrow> bool" where
  "is_tag name n = (case n of Text _ \<Rightarrow> False | Element name' _ _ \<Rightarrow> name' = name)"

definition attr :: "node \<Rightarrow> pystr \<Rightarrow> pystr option" where
  "attr n key = (case n of Text _ \<Rightarrow> None | Element _ attrs _ \<Rightarrow> map_of attrs key)"

text \<open>The search argument \<^verbatim>\<open>{key: True}\<close> (or \<^verbatim>\<open>key=True\<close>): the attribute is present.\<close>

definition has_attr :: "pystr \<Rightarrow> node \<Rightarrow> bool" where
  "has_attr key n = (attr n key \<noteq> None)"

text \<open>
  The value of \<^verbatim>\<open>class\<close> is kept as the list of its whitespace-separated tokens.  A
  search with \<^verbatim>\<open>class_=s\<close> matches when one token equals \<open>s\<close>, or when the tokens
  joined by single spaces equal \<open>s\<close>.
\<close>

fun split_ws :: "pystr \<Rightarrow> pystr \<Rightarrow> pystr list" where
  "split_ws acc [] = (if acc = [] then [] else [acc])"
| "split_ws acc (c # cs) =
     (if isspace c then (if acc = [] then split_ws [] cs else acc # split_ws [] cs)
      else split_ws (acc @ [c]) cs)"

fun join_sp :: "pystr list \<Rightarrow> pystr" where
  "join_sp [] = []"
| "join_sp [t] = t"
| "join_sp (t # ts) = t @ [32] @ join_sp ts"

definition has_class :: "pystr \<Rightarrow> node \<Rightarrow> bool" where
  "has_class s n =
     (case attr n (lit ''class'') of
        None \<Rightarrow> False
      | Some v \<Rightarrow> s \<in> set (split_ws [] v) \<or> join_sp (split_ws [] v) = s)"

text \<open>
  \<^verbatim>\<open>tag.string\<close>: the single string below a tag, looking through single children.
\<close>

fun node_string :: "node \<Rightarrow> pystr option" where
  "node_string (Text s) = Some s"
| "node_string (Element name attrs [c]) = node_string c"
| "node_string (Element name attrs children) = None"

text \<open>
  \<^verbatim>\<open>tag[key]\<close> raises \<^verbatim>\<open>KeyError\<close> for an absent attribute.  The exceptions that
  the program can meet:
\<close>

datatype exn = AttributeError | KeyError | FileNotFoundError | FileExistsError | IsADirectoryError

definition getitem :: "node \<Rightarrow> pystr \<Rightarrow> exn + pystr" where
  "getitem n key = (case attr n key of None \<Rightarrow> Inl KeyError | Some v \<Rightarrow> Inr v)"

section \<open>Page parser\<close>

text \<open>
  The pattern \<^verbatim>\<open>\u5171(\d+)\u9875\<close>: code point 20849, one or more decimal digits, code point
  39029.  \<open>match_digits\<close> matches \<^verbatim>\<open>(\d+)\u9875\<close> at the start of a string and returns the
  group; the digits are taken greedily, giving digits back until the closing character
  follows.  \<open>search_total\<close> is \<^verbatim>\<open>re.search\<close>: the leftmost match.
\<close>

definition digit_value :: "unicode_db \<Rightarrow> nat \<Rightarrow> nat option" where
  "digit_value U c =
     (if c < 128 then (if 48 \<le> c \<and> c \<le> 57 then Some (c - 48) else None)
      else uni_decimal U c)"

definition isdecimal :: "unicode_db \<Rightarrow> nat \<Rightarrow> bool" where
  "isdecimal U c = (digit_value U c \<noteq> None)"

fun match_digits :: "unicode_db \<Rightarrow> pystr \<Rightarrow> pystr option" where
  "match_digits U [] = None"
| "match_digits U (c # r) =
     (if isdecimal U c then
        (case match_digits U r of
           Some ds \<Rightarrow> Some (c # ds)
         | None \<Rightarrow> (case r of [] \<Rightarrow> None | y # _ \<Rightarrow> if y = 39029 then Some [c] else None))
      else None)"

fun search_total :: "unicode_db \<Rightarrow> pystr \<Rightarrow> pystr option" where
  "search_total U [] = None"
| "search_total U (c # r) =
     (case (if c = 20849 then match_digits U r else None) of
        Some ds \<Rightarrow> Some ds
      | None \<Rightarrow> search_total U r)"

text \<open>
  \<^verbatim>\<open>int(match.group(1))\<close>, applied to a group of decimal digits only.  (The limit that
  recent interpreters put on the length of such a literal is not modelled.)
\<close>

definition int_of_digits :: "unicode_db \<Rightarrow> pystr \<Rightarrow> int" where
  "int_of_digits U ds =
     foldl (\<lambda>a c. 10 * a + int (case digit_value U c of Some d \<Rightarrow> d | None \<Rightarrow> 0)) 0 ds"

text \<open>
  \<^verbatim>\<open>
  def get_total_pages(soup):
      pagination_form = soup.find("form", class_="pagination__jumpwrap")
      if pagination_form:
          total_pages_text = pagination_form.find("span", string=re.compile(r"\u5171\d+\u9875"))
          if total_pages_text:
              match = re.search(r"\u5171(\d+)\u9875", total_pages_text.string.strip())
              if match:
                  return int(match.group(1))
      return 1
  \<close>
  A tag is always true.  A search with \<^verbatim>\<open>string=\<close> a pattern accepts a tag whose
  \<^verbatim>\<open>.string\<close> exists and contains a match.
\<close>

definition is_pagination_form :: "node \<Rightarrow> bool" where
  "is_pagination_form n = (is_tag (lit ''form'') n \<and> has_class (lit ''pagination__jumpwrap'') n)"

definition is_total_span :: "unicode_db \<Rightarrow> node \<Rightarrow> bool" where
  "is_total_span U n =
     (is_tag (lit ''span'') n \<and>
      (case node_string n of None \<Rightarrow> False | Some s \<Rightarrow> search_total U s \<noteq> None))"

definition get_total_pages :: "unicode_db \<Rightarrow> node \<Rightarrow> int" where
  "get_total_pages U soup =
     (case soup_find is_pagination_form soup of
        None \<Rightarrow> 1
      | Some pagination_form \<Rightarrow>
          (case soup_find (is_total_span U) pagination_form of
             None \<Rightarrow> 1
           | Some total_pages_text \<Rightarrow>
               (case node_string total_pages_text of
                  None \<Rightarrow> 1
                | Some s \<Rightarrow>
                    (case search_total U (strip s) of
                       None \<Rightarrow> 1
                     | Some group1 \<Rightarrow> int_of_digits U group1))))"

text \<open>
  \<^verbatim>\<open>
  def get_category_title(soup):
      crumbs = soup.find("div", class_="yupoo-crumbs categories__box-right-header")
      if crumbs:
          category_title_tag = crumbs.find("a", class_="yupoo-crumbs-span", title=True)
          if category_title_tag:
              return category_title_tag["title"].strip()
      return "Unknown_Category"
  \<close>
\<close>

definition is_crumbs :: "node \<Rightarrow> bool" where
  "is_crumbs n =
     (is_tag (lit ''div'') n \<and> has_class (lit ''yupoo-crumbs categories__box-right-header'') n)"

definition is_category_title_tag :: "node \<Rightarrow> bool" where
  "is_category_title_tag n =
     (is_tag (lit ''a'') n \<and> has_class (lit ''yupoo-crumbs-span'') n \<and> has_attr (lit ''title'') n)"

definition get_category_title :: "node \<Rightarrow> exn + pystr" where
  "get_category_title soup =
     (case soup_find is_crumbs soup of
        None \<Rightarrow> Inr (lit ''Unknown_Category'')
      | Some crumbs \<Rightarrow>
          (case soup_find is_category_title_tag crumbs of
             None \<Rightarrow> Inr (lit ''Unknown_Category'')
           | Some category_title_tag \<Rightarrow>
               (case getitem category_title_tag (lit ''title'') of
                  Inl e \<Rightarrow> Inl e
                | Inr title \<Rightarrow> Inr (strip title))))"

section \<open>The world: network, file system, console\<close>

text \<open>
  What \<^verbatim>\<open>session.get\<close> can give: a \<^verbatim>\<open>requests.RequestException\<close> (no connection,
  timeout, retries exhausted), or a response with its status code, the parse of its text,
  and for a streamed body the chunks that \<^verbatim>\<open>iter_content\<close> delivers and whether the
  stream then ends regularly (otherwise it raises a \<^verbatim>\<open>RequestException\<close> after the
  last chunk).  The network is a function of the number of requests sent so far and of
  the URL, so it may answer the same URL differently each time.
\<close>

type_synonym bytes = string

record response =
  status_code :: nat
  parsed :: node
  body_chunks :: "bytes list"
  body_complete :: bool

datatype get_result = RequestException | Response response

type_synonym network = "nat \<Rightarrow> pystr \<Rightarrow> get_result"

text \<open>\<^verbatim>\<open>response.raise_for_status()\<close> raises for the codes from 400 to 599.\<close>

definition raises_for_status :: "response \<Rightarrow> bool" where
  "raises_for_status r = (400 \<le> status_code r \<and> status_code r < 600)"

datatype msg =
    Downloaded pystr
  | AttemptFailed nat pystr
  | SkippingFailed pystr
  | FetchingAlbumMetadata pystr
  | FailedAlbumUrl
  | TotalPagesInAlbum pystr int
  | FetchingAlbumPage pystr int
  | FailedPageUrl int
  | NoImagesFound int
  | ImageUrl pystr
  | StartingDownloads pystr int
  | AlbumProcessed pystr
  | InputNotFound
  | MissingUrlColumn
  | FetchingCategory pystr
  | FailedCategory
  | TotalPagesInCategory int
  | ProcessingPage int
  | FailedPage int
  | NoAlbumsFound int
  | AllDownloaded

datatype event = Print msg | Get pystr | Sleep nat | MakeDirs pystr | OpenWrite pystr

text \<open>
  The state that the program changes: the directories and the files that exist (by the
  path string handed to the operating system), the number of requests sent, and the trace
  of what happened, oldest first.
\<close>

record world =
  dirs :: "pystr set"
  files :: "pystr \<rightharpoonup> bytes"
  sent :: nat
  trace :: "event list"

datatype 'a result = Ok 'a world | Raised exn world

definition print :: "msg \<Rightarrow> world \<Rightarrow> world" where
  "print m w = w\<lparr>trace := trace w @ [Print m]\<rparr>"

definition sleep :: "nat \<Rightarrow> world \<Rightarrow> world" where
  "sleep secs w = w\<lparr>trace := trace w @ [Sleep secs]\<rparr>"

definition request :: "pystr \<Rightarrow> world \<Rightarrow> world" where
  "request url w = w\<lparr>sent := sent w + 1, trace := trace w @ [Get url]\<rparr>"

text \<open>
  \<^verbatim>\<open>os.makedirs(path, exist_ok=True)\<close> raises \<^verbatim>\<open>FileExistsError\<close> when the path is
  a file; \<^verbatim>\<open>open(path, "wb")\<close> raises \<^verbatim>\<open>IsADirectoryError\<close> when the path is a
  directory, and otherwise creates the file or empties it.  Other failures of the
  operating system are not modelled.
\<close>

definition makedirs :: "pystr \<Rightarrow> world \<Rightarrow> unit result" where
  "makedirs path w =
     (if files w path \<noteq> None then Raised FileExistsError w
      else Ok () (w\<lparr>dirs := insert path (dirs w), trace := trace w @ [MakeDirs path]\<rparr>))"

definition open_wb :: "pystr \<Rightarrow> world \<Rightarrow> unit result" where
  "open_wb path w =
     (if path \<in> dirs w then Raised IsADirectoryError w
      else Ok () (w\<lparr>files := (files w)(path \<mapsto> []), trace := trace w @ [OpenWrite path]\<rparr>))"

definition file_write :: "pystr \<Rightarrow> bytes \<Rightarrow> world \<Rightarrow> world" where
  "file_write path chunk w =
     w\<lparr>files := (files w)(path \<mapsto> (case files w path of None \<Rightarrow> [] | Some old \<Rightarrow> old) @ chunk)\<rparr>"

text \<open>
  The block that the program repeats for every page it fetches:
  \<^verbatim>\<open>
  try:
      response = session.get(url)
      response.raise_for_status()
  except requests.RequestException as e:
      ...
  \<close>
  The result is the parsed text of the response, or \<open>None\<close> when the handler runs.
\<close>

definition get_document :: "network \<Rightarrow> pystr \<Rightarrow> world \<Rightarrow> node option \<times> world" where
  "get_document net url w =
     (case net (sent w) url of
        RequestException \<Rightarrow> (None, request url w)
      | Response r \<Rightarrow>
          if raises_for_status r then (None, request url w)
          else (Some (parsed r), request url w))"

section \<open>Download worker\<close>

text \<open>
  One pass through the body of the retry loop of \<^verbatim>\<open>download_image\<close>:
  \<^verbatim>\<open>
  try:
      with session.get(image_url, headers=headers, stream=True, timeout=120) as img_response:
          img_response.raise_for_status()
          with open(save_path, "wb") as file:
              for chunk in img_response.iter_content(chunk_size=8192):
                  file.write(chunk)
          print(f"Downloaded: {save_path}")
          return
  except (requests.RequestException, requests.exceptions.Timeout) as e:
      ...
  \<close>
  It succeeds, fails with an exception that the handler catches, or raises another one.
\<close>

datatype attempt = Succeeded world | Failed world | Crashed exn world

definition try_download :: "network \<Rightarrow> pystr \<Rightarrow> pystr \<Rightarrow> world \<Rightarrow> attempt" where
  "try_download net image_url save_path w =
     (case net (sent w) image_url of
        RequestException \<Rightarrow> Failed (request image_url w)
      | Response r \<Rightarrow>
          if raises_for_status r then Failed (request image_url w)
          else
            (case open_wb save_path (request image_url w) of
               Raised e w1 \<Rightarrow> Crashed e w1
             | Ok _ w1 \<Rightarrow>
                 let w2 = fold (file_write save_path) (body_chunks r) w1 in
                 if body_complete r then Succeeded (print (Downloaded save_path) w2)
                 else Failed w2))"

text \<open>
  \<^verbatim>\<open>
  retries = 3
  for attempt in range(retries):
      try: ...
      except (requests.RequestException, requests.exceptions.Timeout) as e:
          print(f"Attempt {attempt + 1} failed for {image_url}: {e}")
          time.sleep(2)
  print(f"Skipping failed or corrupt download: {image_url}")
  \<close>
\<close>

fun attempts :: "network \<Rightarrow> pystr \<Rightarrow> pystr \<Rightarrow> nat list \<Rightarrow> world \<Rightarrow> unit result" where
  "attempts net image_url save_path [] w = Ok () (print (SkippingFailed image_url) w)"
| "attempts net image_url save_path (attempt # rest) w =
     (case try_download net image_url save_path w of
        Succeeded w1 \<Rightarrow> Ok () w1
      | Crashed e w1 \<Rightarrow> Raised e w1
      | Failed w1 \<Rightarrow>
          attempts net image_url save_path rest
            (sleep 2 (print (AttemptFailed (attempt + 1) image_url) w1)))"

definition download_image :: "network \<Rightarrow> pystr \<times> pystr \<Rightarrow> world \<Rightarrow> unit result" where
  "download_image net image_detail w =
     (case image_detail of (image_url, save_path) \<Rightarrow>
        attempts net image_url save_path [0..<3] w)"

text \<open>
  \<^verbatim>\<open>
  with ThreadPoolExecutor(max_workers=8) as executor:
      executor.map(lambda img: download_image(img, session), image_details)
  \<close>
  The results of \<^verbatim>\<open>executor.map\<close> are never read, so an exception raised in a worker
  is dropped, and leaving the \<^verbatim>\<open>with\<close> block waits for every item.  The eight workers
  are modelled as running the items one after the other in the order of the list.
\<close>

definition world_of :: "'a result \<Rightarrow> world" where
  "world_of r = (case r of Ok _ w \<Rightarrow> w | Raised _ w \<Rightarrow> w)"

fun executor_map :: "('a \<Rightarrow> world \<Rightarrow> unit result) \<Rightarrow> 'a list \<Rightarrow> world \<Rightarrow> world" where
  "executor_map f [] w = w"
| "executor_map f (x # xs) w = executor_map f xs (world_of (f x w))"

section \<open>Crawl orchestrator\<close>

text \<open>
  The body of the loop over the image cards of one page, lines 89 to 102:
  \<^verbatim>\<open>
  img_tag = card.find("img", {"data-origin-src": True})
  title_tag = card.find("h3", {"title": True})
  if img_tag and title_tag:
      image_url = img_tag["data-origin-src"]
      image_name = title_tag["title"]
      if image_url.startswith("//"):
          image_url = "https:" + image_url
          print(image_url)
      image_name = sanitize_folder_name(f"{page}_{image_name}")
      image_name += ".jpg"
      image_details.append((image_url, os.path.join(album_folder, image_name)))
  \<close>
\<close>

definition is_img_tag :: "node \<Rightarrow> bool" where
  "is_img_tag n = (is_tag (lit ''img'') n \<and> has_attr (lit ''data-origin-src'') n)"

definition is_title_tag :: "node \<Rightarrow> bool" where
  "is_title_tag n = (is_tag (lit ''h3'') n \<and> has_attr (lit ''title'') n)"

definition process_card ::
  "unicode_db \<Rightarrow> pystr \<Rightarrow> int \<Rightarrow> node \<Rightarrow> (pystr \<times> pystr) list \<Rightarrow> world
     \<Rightarrow> (pystr \<times> pystr) list result" where
  "process_card U album_folder page image_card image_details w =
     (case (soup_find is_img_tag image_card, soup_find is_title_tag image_card) of
        (Some img_tag, Some title_tag) \<Rightarrow>
          (case getitem img_tag (lit ''data-origin-src'') of
             Inl e \<Rightarrow> Raised e w
           | Inr image_url \<Rightarrow>
               (case getitem title_tag (lit ''title'') of
                  Inl e \<Rightarrow> Raised e w
                | Inr image_name \<Rightarrow>
                    if startswith image_url (lit ''//'') then
                      Ok (image_details @
                            [(lit ''https:'' @ image_url,
                              card_save_path U album_folder page image_name)])
                         (print (ImageUrl (lit ''https:'' @ image_url)) w)
                    else
                      Ok (image_details @
                            [(image_url, card_save_path U album_folder page image_name)])
                         w))
      | _ \<Rightarrow> Ok image_details w)"

fun card_loop ::
  "unicode_db \<Rightarrow> pystr \<Rightarrow> int \<Rightarrow> node list \<Rightarrow> (pystr \<times> pystr) list \<Rightarrow> world
     \<Rightarrow> (pystr \<times> pystr) list result" where
  "card_loop U album_folder page [] image_details w = Ok image_details w"
| "card_loop U album_folder page (image_card # cards) image_details w =
     (case process_card U album_folder page image_card image_details w of
        Raised e w1 \<Rightarrow> Raised e w1
      | Ok image_details1 w1 \<Rightarrow> card_loop U album_folder page cards image_details1 w1)"

text \<open>A \<^verbatim>\<open>for\<close> loop whose body may raise: the first exception ends it.\<close>

fun for_each :: "('a \<Rightarrow> world \<Rightarrow> unit result) \<Rightarrow> 'a list \<Rightarrow> world \<Rightarrow> unit result" where
  "for_each body [] w = Ok () w"
| "for_each body (x # xs) w =
     (case body x w of Raised e w1 \<Rightarrow> Raised e w1 | Ok _ w1 \<Rightarrow> for_each body xs w1)"

text \<open>The body of the loop over the pages of an album, lines 74 to 106.\<close>

definition is_image_card :: "node \<Rightarrow> bool" where
  "is_image_card n =
     (is_tag (lit ''div'') n \<and> has_class (lit ''showalbum__children image__main'') n)"

definition album_page ::
  "unicode_db \<Rightarrow> network \<Rightarrow> pystr \<Rightarrow> pystr \<Rightarrow> pystr \<Rightarrow> int \<Rightarrow> world \<Rightarrow> unit result" where
  "album_page U net link album_title album_folder page w =
     (case get_document net (link @ lit ''&page='' @ str_int page)
             (print (FetchingAlbumPage album_title page) w) of
        (None, w1) \<Rightarrow> Ok () (print (FailedPageUrl page) w1)
      | (Some page_soup, w1) \<Rightarrow>
          if soup_find_all is_image_card page_soup = [] then Ok () (print (NoImagesFound page) w1)
          else
            (case card_loop U album_folder page (soup_find_all is_image_card page_soup) [] w1 of
               Raised e w2 \<Rightarrow> Raised e w2
             | Ok image_details w2 \<Rightarrow>
                 Ok () (executor_map (download_image net) image_details
                          (print (StartingDownloads album_title page) w2))))"

text \<open>
  \<^verbatim>\<open>
  def download_images_from_album(link, album_title, session, base_folder):
      album_folder = os.path.join(base_folder, sanitize_folder_name(album_title))
      os.makedirs(album_folder, exist_ok=True)
      print(f"Fetching album '{album_title}' metadata...")
      try:
          response = session.get(link)
          response.raise_for_status()
      except requests.RequestException as e:
          print(f"Failed to fetch album URL: {e}")
          return
      soup = BeautifulSoup(response.text, "html.parser")
      total_pages = get_total_pages(soup)
      print(f"Total pages in album '{album_title}': {total_pages}")
      for page in range(1, total_pages + 1):
          ...
      print(f"All pages of album '{album_title}' have been processed.")
  \<close>
\<close>

definition album_folder_of :: "unicode_db \<Rightarrow> pystr \<Rightarrow> pystr \<Rightarrow> pystr" where
  "album_folder_of U base_folder album_title =
     os_path_join base_folder (sanitize_folder_name U album_title)"

definition download_images_from_album ::
  "unicode_db \<Rightarrow> network \<Rightarrow> pystr \<Rightarrow> pystr \<Rightarrow> pystr \<Rightarrow> world \<Rightarrow> unit result" where
  "download_images_from_album U net link album_title base_folder w =
     (case makedirs (album_folder_of U base_folder album_title) w of
        Raised e w1 \<Rightarrow> Raised e w1
      | Ok _ w1 \<Rightarrow>
          (case get_document net link (print (FetchingAlbumMetadata album_title) w1) of
             (None, w2) \<Rightarrow> Ok () (print FailedAlbumUrl w2)
           | (Some album_soup, w2) \<Rightarrow>
               (case for_each
                       (album_page U net link album_title
                          (album_folder_of U base_folder album_title))
                       [1 .. get_total_pages U album_soup]
                       (print (TotalPagesInAlbum album_title (get_total_pages U album_soup)) w2) of
                  Raised e w3 \<Rightarrow> Raised e w3
                | Ok _ w3 \<Rightarrow> Ok () (print (AlbumProcessed album_title) w3))))"

text \<open>
  The body of the loop over the albums of a category page, lines 164 to 169:
  \<^verbatim>\<open>
  album_title = album.get("title", "Untitled").strip()
  album_link = album["href"]
  if album_link.startswith("/"):
      album_link = f"{base_domain}{album_link}"
  download_images_from_album(album_link, album_title, session, base_folder)
  \<close>
\<close>

definition process_album ::
  "unicode_db \<Rightarrow> network \<Rightarrow> pystr \<Rightarrow> pystr \<Rightarrow> node \<Rightarrow> world \<Rightarrow> unit result" where
  "process_album U net base_domain base_folder album w =
     (case getitem album (lit ''href'') of
        Inl e \<Rightarrow> Raised e w
      | Inr album_link \<Rightarrow>
          download_images_from_album U net
            (if startswith album_link (lit ''/'') then base_domain @ album_link else album_link)
            (strip (case attr album (lit ''title'') of
                      None \<Rightarrow> lit ''Untitled'' | Some t \<Rightarrow> t))
            base_folder w)"

text \<open>The body of the loop over the pages of a category, lines 148 to 169.\<close>

definition is_album :: "node \<Rightarrow> bool" where
  "is_album n = (is_tag (lit ''a'') n \<and> has_class (lit ''album__main'') n)"

definition category_page ::
  "unicode_db \<Rightarrow> network \<Rightarrow> pystr \<Rightarrow> pystr \<Rightarrow> pystr \<Rightarrow> int \<Rightarrow> world \<Rightarrow> unit result" where
  "category_page U net base_url base_domain base_folder page w =
     (case get_document net (base_url @ lit ''?page='' @ str_int page)
             (print (ProcessingPage page) w) of
        (None, w1) \<Rightarrow> Ok () (print (FailedPage page) w1)
      | (Some page_soup, w1) \<Rightarrow>
          if soup_find_all is_album page_soup = [] then Ok () (print (NoAlbumsFound page) w1)
          else for_each (process_album U net base_domain base_folder)
                 (soup_find_all is_album page_soup) w1)"

text \<open>
  \<^verbatim>\<open>re.match(r"https://[^/]+", base_url)\<close>: the URL begins with \<^verbatim>\<open>https://\<close> and at
  least one character other than a slash follows; group 0 runs up to the next slash.
\<close>

definition match_base_domain :: "pystr \<Rightarrow> pystr option" where
  "match_base_domain base_url =
     (if startswith base_url (lit ''https://'') \<and>
         takeWhile (\<lambda>c. c \<noteq> 47) (drop 8 base_url) \<noteq> []
      then Some (lit ''https://'' @ takeWhile (\<lambda>c. c \<noteq> 47) (drop 8 base_url))
      else None)"

text \<open>
  The body of the loop over the seed links, lines 128 to 169.  A seed is a cell of the
  input table, or \<open>None\<close> where the table has no value for it; \<^verbatim>\<open>None.strip()\<close> and
  \<^verbatim>\<open>None.group(0)\<close> raise \<^verbatim>\<open>AttributeError\<close>.
  \<^verbatim>\<open>
  base_url = base_url.strip()
  base_domain = re.match(r"https://[^/]+", base_url).group(0)
  print(f"Fetching main category page: {base_url}")
  try:
      response = session.get(base_url)
      response.raise_for_status()
  except requests.RequestException as e:
      print(f"Failed to fetch main category page: {e}")
      continue
  soup = BeautifulSoup(response.text, "html.parser")
  total_pages = get_total_pages(soup)
  print(f"Total number of pages in the category: {total_pages}")
  category_title = get_category_title(soup)
  base_folder = os.path.join("Images", sanitize_folder_name(category_title))
  os.makedirs(base_folder, exist_ok=True)
  for page in range(1, total_pages + 1):
      ...
  \<close>
\<close>

definition process_seed :: "unicode_db \<Rightarrow> network \<Rightarrow> pystr option \<Rightarrow> world \<Rightarrow> unit result" where
  "process_seed U net seed w =
     (case seed of
        None \<Rightarrow> Raised AttributeError w
      | Some raw_url \<Rightarrow>
          (case match_base_domain (strip raw_url) of
             None \<Rightarrow> Raised AttributeError w
           | Some base_domain \<Rightarrow>
               (case get_document net (strip raw_url)
                       (print (FetchingCategory (strip raw_url)) w) of
                  (None, w1) \<Rightarrow> Ok () (print FailedCategory w1)
                | (Some category_soup, w1) \<Rightarrow>
                    (case get_category_title category_soup of
                       Inl e \<Rightarrow>
                         Raised e (print (TotalPagesInCategory (get_total_pages U category_soup)) w1)
                     | Inr category_title \<Rightarrow>
                         (case makedirs
                                 (os_path_join (lit ''Images'')
                                    (sanitize_folder_name U category_title))
                                 (print (TotalPagesInCategory (get_total_pages U category_soup)) w1) of
                            Raised e w2 \<Rightarrow> Raised e w2
                          | Ok _ w2 \<Rightarrow>
                              for_each
                                (category_page U net (strip raw_url) base_domain
                                   (os_path_join (lit ''Images'')
                                      (sanitize_folder_name U category_title)))
                                [1 .. get_total_pages U category_soup] w2)))))"

section \<open>Input table and entry point\<close>

text \<open>
  The input is what \<^verbatim>\<open>csv.reader\<close> yields for \<^verbatim>\<open>input.csv\<close>, a list of rows of
  cells, or \<open>None\<close> when the file does not exist.  \<^verbatim>\<open>csv.DictReader\<close> takes the first
  row as the field names, skips empty rows, and turns each other row into a dictionary:
  \<^verbatim>\<open>
  d = dict(zip(self.fieldnames, row))
  lf = len(self.fieldnames)
  lr = len(row)
  if lf < lr:
      d[self.restkey] = row[lf:]
  elif lf > lr:
      for key in self.fieldnames[lr:]:
          d[key] = self.restval
  \<close>
  A later assignment to a key replaces an earlier one.  The entry under \<^verbatim>\<open>restkey\<close>
  (the key \<^verbatim>\<open>None\<close>) is left out, since the program only looks up \<^verbatim>\<open>"URL"\<close>.  The
  value of a named field is a cell or \<^verbatim>\<open>restval\<close>, which is \<^verbatim>\<open>None\<close>.
\<close>

definition dict_row :: "pystr list \<Rightarrow> pystr list \<Rightarrow> (pystr \<rightharpoonup> pystr option)" where
  "dict_row fieldnames row =
     fold (\<lambda>kv d. d(fst kv \<mapsto> snd kv))
       (zip fieldnames (map Some row) @
        map (\<lambda>key. (key, None)) (drop (length row) fieldnames))
       Map.empty"

definition dict_reader :: "pystr list list \<Rightarrow> (pystr \<rightharpoonup> pystr option) list" where
  "dict_reader rows =
     (case rows of
        [] \<Rightarrow> []
      | fieldnames # rest \<Rightarrow> map (dict_row fieldnames) (filter (\<lambda>row. row \<noteq> []) rest))"

text \<open>
  \<^verbatim>\<open>links = [row["URL"] for row in reader if "URL" in row]\<close>, where the subscript raises
  \<^verbatim>\<open>KeyError\<close> for an absent key.
\<close>

fun collect_links :: "(pystr \<rightharpoonup> pystr option) list \<Rightarrow> exn + pystr option list" where
  "collect_links [] = Inr []"
| "collect_links (row # rows) =
     (if row (lit ''URL'') \<noteq> None then
        (case row (lit ''URL'') of
           None \<Rightarrow> Inl KeyError
         | Some url \<Rightarrow>
             (case collect_links rows of Inl e \<Rightarrow> Inl e | Inr links \<Rightarrow> Inr (url # links)))
      else collect_links rows)"

text \<open>
  \<^verbatim>\<open>
  def download_images_from_yupoo_main():
      input_file = "input.csv"
      try:
          with open(input_file, "r", encoding="utf-8") as csv_file:
              reader = csv.DictReader(csv_file)
              links = [row["URL"] for row in reader if "URL" in row]
      except FileNotFoundError:
          print(f"Input file '{input_file}' not found.")
          return
      except KeyError:
          print("Input CSV file must have a column named 'URL'.")
          return
      ...
      for base_url in links:
          ...
      print("All images from all categories downloaded successfully.")
  \<close>
\<close>

definition read_links :: "pystr list list option \<Rightarrow> exn + pystr option list" where
  "read_links input_file =
     (case input_file of
        None \<Rightarrow> Inl FileNotFoundError
      | Some rows \<Rightarrow> collect_links (dict_reader rows))"

definition download_images_from_yupoo_main ::
  "unicode_db \<Rightarrow> network \<Rightarrow> pystr list list option \<Rightarrow> world \<Rightarrow> unit result" where
  "download_images_from_yupoo_main U net input_file w =
     (case read_links input_file of
        Inl e \<Rightarrow>
          if e = FileNotFoundError then Ok () (print InputNotFound w)
          else if e = KeyError then Ok () (print MissingUrlColumn w)
          else Raised e w
      | Inr links \<Rightarrow>
          (case for_each (process_seed U net) links w of
             Raised e w1 \<Rightarrow> Raised e w1
           | Ok _ w1 \<Rightarrow> Ok () (print AllDownloaded w1)))"

text \<open>
  A database for concrete evaluations: beyond ASCII it knows the CJK unified ideographs
  (U+4E00 to U+9FFF, letters in every Unicode version) and no further digits.
\<close>

definition cjk_db :: unicode_db where
  "cjk_db = \<lparr>uni_alnum = (\<lambda>c. 19968 \<le> c \<and> c \<le> 40959), uni_decimal = (\<lambda>c. None)\<rparr>"

section \<open>Conditions and sample inputs of the statements\<close>

text \<open>
  An answer of the network makes an attempt of \<open>download_image\<close> fail when the request
  raises, the status is an error, or the body breaks off; it is \<open>refused\<close> when it fails
  before the body is read.
\<close>

definition refused :: "get_result \<Rightarrow> bool" where
  "refused g = (case g of RequestException \<Rightarrow> True | Response r \<Rightarrow> raises_for_status r)"

definition attempt_fails :: "get_result \<Rightarrow> bool" where
  "attempt_fails g = (case g of RequestException \<Rightarrow> True | Response r \<Rightarrow> raises_for_status r \<or> \<not> body_complete r)"

definition is_get_or_sleep :: "event \<Rightarrow> bool" where
  "is_get_or_sleep e = (case e of Get _ \<Rightarrow> True | Sleep _ \<Rightarrow> True | _ \<Rightarrow> False)"

definition fresh_world :: world where
  "fresh_world = \<lparr>dirs = {}, files = Map.empty, sent = 0, trace = []\<rparr>"

definition truncating_net :: network where
  "truncating_net = (\<lambda>k url. Response \<lparr>status_code = 200, parsed = Text [],
      body_chunks = [''ab'', ''c''], body_complete = False\<rparr>)"

definition refusing_net :: network where
  "refusing_net = (\<lambda>k url. if k = 1 then RequestException
      else Response \<lparr>status_code = 503, parsed = Text [], body_chunks = [], body_complete = True\<rparr>)"

definition failing_net :: network where
  "failing_net = (\<lambda>k url.
      if k = 0 then RequestException
      else if k = 1 then
        Response \<lparr>status_code = 404, parsed = Text [], body_chunks = [], body_complete = True\<rparr>
      else
        Response \<lparr>status_code = 200, parsed = Text [], body_chunks = [''xy''], body_complete = False\<rparr>)"

text \<open>
  A seed that makes the loop over the links raise: a missing cell, or a URL that does not
  begin with \<^verbatim>\<open>https://\<close> once \<^verbatim>\<open>strip\<close> has trimmed it.
\<close>

definition bad_seed :: "pystr option \<Rightarrow> bool" where
  "bad_seed seed =
     (case seed of None \<Rightarrow> True | Some raw_url \<Rightarrow> \<not> startswith (strip raw_url) (lit ''https://''))"

definition no_url_table :: "pystr list list" where
  "no_url_table = [[lit ''Link''], [lit ''https://x.yupoo.com/categories/1'']]"

definition http_table :: "pystr list list" where
  "http_table = [[lit ''URL''], [lit ''http://x.yupoo.com/categories/1'']]"

definition padded_table :: "pystr list list" where
  "padded_table = [[lit ''URL''], [lit '' https://x.yupoo.com/categories/1'']]"

definition dead_net :: network where
  "dead_net = (\<lambda>k url. RequestException)"

text \<open>
  What it means for a string to contain the page-count marker: somewhere in it stand code
  point 20849, a non-empty run of decimal digits and code point 39029.
\<close>

definition has_total_marker :: "unicode_db \<Rightarrow> pystr \<Rightarrow> bool" where
  "has_total_marker U s =
     (\<exists>pre ds post. ds \<noteq> [] \<and> list_all (isdecimal U) ds \<and>
        s = pre @ [20849] @ ds @ [39029] @ post)"

definition bare_marker_page :: node where
  "bare_marker_page =
     Element (lit ''html'') []
       [Element (lit ''form'') [(lit ''class'', lit ''pagination__jumpwrap'')]
          [Element (lit ''span'') [] [Text [20849, 39029]],
           Element (lit ''input'') [(lit ''name'', lit ''page'')] []]]"

text \<open>Two sample image cards: one with a scheme-relative source, one without a title.\<close>

definition relative_card :: node where
  "relative_card =
     Element (lit ''div'') [(lit ''class'', lit ''showalbum__children image__main'')]
       [Element (lit ''img'') [(lit ''data-origin-src'', lit ''//cdn.example.com/a.jpg'')] [],
        Element (lit ''h3'') [(lit ''title'', lit ''A'')] [Text (lit ''A'')]]"

definition untitled_card :: node where
  "untitled_card =
     Element (lit ''div'') [(lit ''class'', lit ''showalbum__children image__main'')]
       [Element (lit ''img'') [(lit ''data-origin-src'', lit ''//cdn.example.com/b.jpg'')] [],
        Element (lit ''h3'') [] [Text (lit ''B'')]]"

text \<open>
  A sample album page with two image cards that carry the same title, and the ASCII
  digits that \<open>str_int\<close> produces.
\<close>

definition twin_page :: node where
  "twin_page =
     Element (lit ''html'') []
       [Element (lit ''div'') [(lit ''class'', lit ''showalbum__children image__main'')]
          [Element (lit ''img'') [(lit ''data-origin-src'', lit ''//cdn.example.com/a.jpg'')] [],
           Element (lit ''h3'') [(lit ''title'', lit ''A'')] []],
        Element (lit ''div'') [(lit ''class'', lit ''showalbum__children image__main'')]
          [Element (lit ''img'') [(lit ''data-origin-src'', lit ''//cdn.example.com/b.jpg'')] [],
           Element (lit ''h3'') [(lit ''title'', lit ''A'')] []]]"

definition is_ascii_digit :: "nat \<Rightarrow> bool" where
  "is_ascii_digit c = (48 \<le> c \<and> c \<le> 57)"

section \<open>Properties of the naming policy\<close>

lemmas eval_defs =
  sanitize_folder_name_def strip_def lstrip_def rstrip_def isspace_def sanitize_char_def
  keep_char_def isalnum_def ascii_isalnum_def lit_def cjk_db_def

lemma last_dropWhile_keep: "dropWhile P xs \<noteq> [] \<Longrightarrow> last (dropWhile P xs) = last xs"
  by (induction xs) (auto split: if_splits)

lemma lstrip_no_lead: "lstrip s = [] \<or> \<not> isspace (hd (lstrip s))"
  unfolding lstrip_def using hd_dropWhile [of isspace s] by blast

lemma strip_ends: "strip s = [] \<or> (\<not> isspace (hd (strip s)) \<and> \<not> isspace (last (strip s)))"
proof (cases "strip s = []")
  case True
  then show ?thesis by simp
next
  case False
  let ?l = "lstrip s"
  let ?d = "dropWhile isspace (rev ?l)"
  have s: "strip s = rev ?d" by (simp add: strip_def rstrip_def)
  with False have d: "?d \<noteq> []" by simp
  then have l: "?l \<noteq> []" by auto
  have "\<not> isspace (hd ?d)" using d by (rule hd_dropWhile)
  then have a: "\<not> isspace (last (strip s))" using d by (simp add: s last_rev)
  have "last ?d = last (rev ?l)" using d by (rule last_dropWhile_keep)
  then have "hd (strip s) = hd ?l" using d l by (simp add: s hd_rev last_rev)
  moreover have "\<not> isspace (hd ?l)" using l lstrip_no_lead [of s] by simp
  ultimately show ?thesis using a by simp
qed

lemma strip_fixed: "s = [] \<or> (\<not> isspace (hd s) \<and> \<not> isspace (last s)) \<Longrightarrow> strip s = s"
proof (cases s)
  case Nil
  then show ?thesis by (simp add: strip_def lstrip_def rstrip_def)
next
  case (Cons c cs)
  assume "s = [] \<or> (\<not> isspace (hd s) \<and> \<not> isspace (last s))"
  with Cons have h: "\<not> isspace (hd s)" and l: "\<not> isspace (last s)" by auto
  have "lstrip s = s" using h Cons by (simp add: lstrip_def)
  moreover have "dropWhile isspace (rev s) = rev s"
  proof -
    obtain a r where ar: "rev s = a # r" using Cons by (cases "rev s") auto
    have "hd (rev s) = last s" using Cons by (simp add: hd_rev)
    with ar l have "\<not> isspace a" by simp
    then have "dropWhile isspace (a # r) = a # r" by simp
    then show ?thesis by (simp only: ar)
  qed
  ultimately show ?thesis by (simp add: strip_def rstrip_def)
qed

lemma strip_idem: "strip (strip s) = strip s"
  by (rule strip_fixed) (rule strip_ends)

lemma set_strip: "set (strip s) \<subseteq> set s"
proof
  fix c assume "c \<in> set (strip s)"
  then have "c \<in> set (dropWhile isspace (rev (dropWhile isspace s)))"
    by (simp add: strip_def rstrip_def lstrip_def)
  then have "c \<in> set (rev (dropWhile isspace s))" by (rule set_dropWhileD)
  then have "c \<in> set (dropWhile isspace s)" by simp
  then show "c \<in> set s" by (rule set_dropWhileD)
qed

lemma keep_sanitize_char: "keep_char U (sanitize_char U c)"
  by (simp add: sanitize_char_def keep_char_def)

lemma sanitize_char_keep: "keep_char U c \<Longrightarrow> sanitize_char U c = c"
  by (simp add: sanitize_char_def)

lemma sanitize_keeps: "c \<in> set (sanitize_folder_name U name) \<Longrightarrow> keep_char U c"
  using set_strip [of "map (sanitize_char U) name"]
  by (auto simp: sanitize_folder_name_def keep_sanitize_char)

text \<open>
  Claim C5.  Sanitizing is idempotent: applying \<open>sanitize_folder_name\<close> to its own
  output returns that output, for every input string (and every Unicode database).
\<close>

theorem sanitize_idempotent:
  "sanitize_folder_name U (sanitize_folder_name U x) = sanitize_folder_name U x"
proof -
  have "map (sanitize_char U) (sanitize_folder_name U x) = sanitize_folder_name U x"
    by (rule map_idI) (simp add: sanitize_keeps sanitize_char_keep)
  then have "sanitize_folder_name U (sanitize_folder_name U x) = strip (sanitize_folder_name U x)"
    by (simp add: sanitize_folder_name_def)
  also have "\<dots> = sanitize_folder_name U x"
    by (simp add: sanitize_folder_name_def strip_idem)
  finally show ?thesis .
qed

text \<open>
  Claim C8.  For every input, each character of the sanitized name is alphanumeric, a
  space or an underscore, and the name neither begins nor ends with a whitespace
  character.
\<close>

theorem sanitize_charset:
  "list_all (keep_char U) (sanitize_folder_name U name) \<and>
   (sanitize_folder_name U name = [] \<or>
     (\<not> isspace (hd (sanitize_folder_name U name)) \<and>
      \<not> isspace (last (sanitize_folder_name U name))))"
  using strip_ends [of "map (sanitize_char U) name"]
  by (simp add: list_all_iff sanitize_keeps sanitize_folder_name_def)

theorem sanitize_charset_witness:
  "sanitize_folder_name cjk_db (lit '' Spring/Summer '') = lit ''Spring_Summer'' \<and>
   list_all (keep_char cjk_db) (lit ''Spring_Summer'') \<and>
   \<not> isspace (hd (lit ''Spring_Summer'')) \<and> \<not> isspace (last (lit ''Spring_Summer''))"
  using sanitize_charset [of cjk_db "lit '' Spring/Summer ''"]
  by (simp add: eval_defs)

section \<open>Properties of the download worker\<close>

lemma is_get_or_sleep_simps:
  "is_get_or_sleep (Get u)" "is_get_or_sleep (Sleep n)" "\<not> is_get_or_sleep (Print m)"
  "\<not> is_get_or_sleep (MakeDirs p)" "\<not> is_get_or_sleep (OpenWrite p)"
  by (simp_all add: is_get_or_sleep_def)

lemma fold_file_write_frame:
  "sent (fold (file_write p) cs w) = sent w \<and> dirs (fold (file_write p) cs w) = dirs w \<and>
   trace (fold (file_write p) cs w) = trace w"
  by (induction cs arbitrary: w) (simp_all add: file_write_def)

lemma fold_file_write_other:
  "q \<noteq> p \<Longrightarrow> files (fold (file_write p) cs w) q = files w q"
  by (induction cs arbitrary: w) (simp_all add: file_write_def)

lemma fold_file_write_content:
  "files w p = Some old \<Longrightarrow> files (fold (file_write p) cs w) p = Some (old @ concat cs)"
  by (induction cs arbitrary: w old) (simp_all add: file_write_def)

lemma try_download_refused:
  assumes "refused (net (sent w) url)"
  shows "try_download net url path w = Failed (request url w)"
  using assms by (auto simp: try_download_def refused_def split: get_result.splits)

lemma try_download_fails:
  assumes "attempt_fails (net (sent w) url)" and "path \<notin> dirs w"
  shows "\<exists>w1 es. try_download net url path w = Failed w1 \<and> sent w1 = Suc (sent w) \<and>
           dirs w1 = dirs w \<and> trace w1 = trace w @ es \<and> filter is_get_or_sleep es = [Get url]"
proof (cases "net (sent w) url")
  case RequestException
  then show ?thesis
    by (simp add: try_download_def request_def is_get_or_sleep_simps)
next
  case (Response r)
  show ?thesis
  proof (cases "raises_for_status r")
    case True
    with Response show ?thesis
      by (simp add: try_download_def request_def is_get_or_sleep_simps)
  next
    case False
    with Response assms(1) have inc: "\<not> body_complete r" by (simp add: attempt_fails_def)
    let ?w1 = "(request url w)\<lparr>files := (files (request url w))(path \<mapsto> []),
                 trace := trace (request url w) @ [OpenWrite path]\<rparr>"
    have op: "open_wb path (request url w) = Ok () ?w1"
      using assms(2) by (simp add: open_wb_def request_def)
    have td: "try_download net url path w = Failed (fold (file_write path) (body_chunks r) ?w1)"
      using Response False inc op by (simp add: try_download_def)
    show ?thesis
      unfolding td
      by (rule exI [of _ "fold (file_write path) (body_chunks r) ?w1"],
          rule exI [of _ "[Get url, OpenWrite path]"])
         (simp add: fold_file_write_frame request_def is_get_or_sleep_simps)
  qed
qed

lemma three_attempts: "[0..<3] = [0, 1, 2]"
  by (simp add: upt_rec)


lemma attempts_all_fail:
  assumes "\<forall>k < length ns. attempt_fails (net (sent w + k) url)" and "path \<notin> dirs w"
  shows "\<exists>w' es. attempts net url path ns w = Ok () w' \<and> sent w' = sent w + length ns \<and>
           dirs w' = dirs w \<and> trace w' = trace w @ es @ [Print (SkippingFailed url)] \<and>
           filter is_get_or_sleep es = concat (map (\<lambda>n. [Get url, Sleep 2]) ns)"
  using assms
proof (induction ns arbitrary: w)
  case Nil
  show ?case by (simp add: print_def)
next
  case (Cons n ns)
  from Cons.prems(1) have "attempt_fails (net (sent w) url)" by force
  with try_download_fails [of net w url path] Cons.prems(2)
  obtain w1 es1 where t: "try_download net url path w = Failed w1"
    and s1: "sent w1 = Suc (sent w)" and d1: "dirs w1 = dirs w"
    and tr1: "trace w1 = trace w @ es1" and f1: "filter is_get_or_sleep es1 = [Get url]"
    by blast
  define w2 where "w2 = sleep 2 (print (AttemptFailed (n + 1) url) w1)"
  have s2: "sent w2 = Suc (sent w)" and d2: "dirs w2 = dirs w"
    and tr2: "trace w2 = trace w @ es1 @ [Print (AttemptFailed (n + 1) url), Sleep 2]"
    by (simp_all add: w2_def sleep_def print_def s1 d1 tr1)
  have "\<forall>k < length ns. attempt_fails (net (sent w2 + k) url)"
  proof (intro allI impI)
    fix k assume "k < length ns"
    then have "Suc k < length (n # ns)" by simp
    with Cons.prems(1) have "attempt_fails (net (sent w + Suc k) url)" by blast
    then show "attempt_fails (net (sent w2 + k) url)" by (simp add: s2)
  qed
  moreover have "path \<notin> dirs w2" using Cons.prems(2) d2 by simp
  ultimately obtain w' es where r: "attempts net url path ns w2 = Ok () w'"
    and s': "sent w' = sent w2 + length ns" and d': "dirs w' = dirs w2"
    and tr': "trace w' = trace w2 @ es @ [Print (SkippingFailed url)]"
    and f': "filter is_get_or_sleep es = concat (map (\<lambda>n. [Get url, Sleep 2]) ns)"
    using Cons.IH [of w2] by blast
  have a: "attempts net url path (n # ns) w = Ok () w'"
    using t r by (simp add: w2_def)
  show ?case
    apply (rule exI [of _ w'])
    apply (rule exI [of _ "es1 @ [Print (AttemptFailed (n + 1) url), Sleep 2] @ es"])
    using a s' d' tr' f' f1 s2 d2 tr2
    by (simp add: is_get_or_sleep_simps)
qed

lemma attempts_all_refused:
  assumes "\<forall>k < length ns. refused (net (sent w + k) url)"
  shows "\<exists>w'. attempts net url path ns w = Ok () w' \<and> files w' = files w \<and> dirs w' = dirs w"
  using assms
proof (induction ns arbitrary: w)
  case Nil
  show ?case by (simp add: print_def)
next
  case (Cons n ns)
  from Cons.prems have "refused (net (sent w) url)" by force
  then have t: "try_download net url path w = Failed (request url w)"
    by (rule try_download_refused)
  define w2 where "w2 = sleep 2 (print (AttemptFailed (n + 1) url) (request url w))"
  have s2: "sent w2 = Suc (sent w)" and d2: "dirs w2 = dirs w" and f2: "files w2 = files w"
    by (simp_all add: w2_def sleep_def print_def request_def)
  have "\<forall>k < length ns. refused (net (sent w2 + k) url)"
  proof (intro allI impI)
    fix k assume "k < length ns"
    then have "Suc k < length (n # ns)" by simp
    with Cons.prems have "refused (net (sent w + Suc k) url)" by blast
    then show "refused (net (sent w2 + k) url)" by (simp add: s2)
  qed
  then obtain w' where "attempts net url path ns w2 = Ok () w'"
    and "files w' = files w2" and "dirs w' = dirs w2"
    using Cons.IH [of w2] by blast
  then show ?case using t d2 f2 by (simp add: w2_def)
qed

lemmas io_defs = download_image_def try_download_def world_of_def raises_for_status_def request_def
  open_wb_def file_write_def print_def sleep_def three_attempts makedirs_def get_document_def

lemma try_download_sent:
  "(case try_download net url path w of
      Succeeded w1 \<Rightarrow> sent w1 | Failed w1 \<Rightarrow> sent w1 | Crashed e w1 \<Rightarrow> sent w1) = sent w + 1"
  by (auto simp: try_download_def request_def open_wb_def print_def fold_file_write_frame Let_def
      split: get_result.splits)

lemma attempts_sent_bound:
  "sent (world_of (attempts net url path ns w)) \<le> sent w + length ns"
proof (induction ns arbitrary: w)
  case Nil
  show ?case by (simp add: world_of_def print_def)
next
  case (Cons n ns)
  note t = try_download_sent [of net url path w]
  show ?case
  proof (cases "try_download net url path w")
    case (Succeeded w1)
    with t show ?thesis by (simp add: world_of_def)
  next
    case (Crashed e w1)
    with t show ?thesis by (simp add: world_of_def)
  next
    case (Failed w1)
    define w2 where "w2 = sleep 2 (print (AttemptFailed (n + 1) url) w1)"
    have "sent w2 = sent w + 1" using t Failed by (simp add: w2_def sleep_def print_def)
    moreover have "sent (world_of (attempts net url path ns w2)) \<le> sent w2 + length ns"
      by (rule Cons.IH)
    moreover have "attempts net url path (n # ns) w = attempts net url path ns w2"
      using Failed by (simp add: w2_def)
    ultimately show ?thesis by simp
  qed
qed

text \<open>
  Claim C4.  \<open>download_image\<close> never sends more than three requests for an item.  When
  each of the three answers that the network gives is a request failure (an exception of
  the request, an error status, or a body that breaks off), it sends exactly three
  requests, sleeps 2 seconds after each failed one, prints that it skips the item and
  returns without an exception; the pool goes on with the remaining items.
\<close>

theorem download_image_retries:
  "sent (world_of (download_image net (image_url, save_path) w)) \<le> sent w + 3 \<and>
   ((\<forall>k < 3. attempt_fails (net (sent w + k) image_url)) \<and> save_path \<notin> dirs w \<longrightarrow>
      (\<exists>w' es. download_image net (image_url, save_path) w = Ok () w' \<and>
           trace w' = trace w @ es @ [Print (SkippingFailed image_url)] \<and>
           filter is_get_or_sleep es =
             [Get image_url, Sleep 2, Get image_url, Sleep 2, Get image_url, Sleep 2] \<and>
           sent w' = sent w + 3 \<and>
           executor_map (download_image net) ((image_url, save_path) # rest) w =
             executor_map (download_image net) rest w'))"
proof (intro conjI impI)
  show "sent (world_of (download_image net (image_url, save_path) w)) \<le> sent w + 3"
    using attempts_sent_bound [of net image_url save_path "[0, 1, 2]" w]
    by (simp add: download_image_def three_attempts)
next
  assume h: "(\<forall>k < 3. attempt_fails (net (sent w + k) image_url)) \<and> save_path \<notin> dirs w"
  then have "\<forall>k < length [0::nat, 1, 2]. attempt_fails (net (sent w + k) image_url)"
    by simp
  with attempts_all_fail [of "[0, 1, 2]" net w image_url save_path] h
  obtain w' es where a: "attempts net image_url save_path [0, 1, 2] w = Ok () w'"
    and b: "sent w' = sent w + length [0::nat, 1, 2]"
    and c: "trace w' = trace w @ es @ [Print (SkippingFailed image_url)]"
    and d: "filter is_get_or_sleep es = concat (map (\<lambda>n. [Get image_url, Sleep 2]) [0::nat, 1, 2])"
    by blast
  have e: "download_image net (image_url, save_path) w = Ok () w'"
    using a by (simp add: download_image_def three_attempts)
  show "\<exists>w' es. download_image net (image_url, save_path) w = Ok () w' \<and>
           trace w' = trace w @ es @ [Print (SkippingFailed image_url)] \<and>
           filter is_get_or_sleep es =
             [Get image_url, Sleep 2, Get image_url, Sleep 2, Get image_url, Sleep 2] \<and>
           sent w' = sent w + 3 \<and>
           executor_map (download_image net) ((image_url, save_path) # rest) w =
             executor_map (download_image net) rest w'"
    apply (rule exI [of _ w'])
    apply (rule exI [of _ es])
    using e b c d by (simp add: world_of_def)
qed

theorem download_image_retries_witness:
  "download_image failing_net (lit ''https://p/a.jpg'', lit ''Images/C/A/1_a.jpg'') fresh_world =
     Ok () \<lparr>dirs = {}, files = [lit ''Images/C/A/1_a.jpg'' \<mapsto> ''xy''], sent = 3,
        trace = [Get (lit ''https://p/a.jpg''), Print (AttemptFailed 1 (lit ''https://p/a.jpg'')),
                 Sleep 2,
                 Get (lit ''https://p/a.jpg''), Print (AttemptFailed 2 (lit ''https://p/a.jpg'')),
                 Sleep 2,
                 Get (lit ''https://p/a.jpg''), OpenWrite (lit ''Images/C/A/1_a.jpg''),
                 Print (AttemptFailed 3 (lit ''https://p/a.jpg'')), Sleep 2,
                 Print (SkippingFailed (lit ''https://p/a.jpg''))]\<rparr>"
proof -
  have h1: "\<forall>k < 3. attempt_fails (failing_net (sent fresh_world + k) (lit ''https://p/a.jpg''))"
    by (simp add: attempt_fails_def failing_net_def raises_for_status_def)
  have h2: "lit ''Images/C/A/1_a.jpg'' \<notin> dirs fresh_world" by (simp add: fresh_world_def)
  from download_image_retries [where net = failing_net and w = fresh_world
      and image_url = "lit ''https://p/a.jpg''" and save_path = "lit ''Images/C/A/1_a.jpg''"
      and rest = "[]"] h1 h2
  obtain w' es
    where "download_image failing_net (lit ''https://p/a.jpg'', lit ''Images/C/A/1_a.jpg'')
              fresh_world = Ok () w'"
      and "sent w' = sent fresh_world + 3"
      and "trace w' = trace fresh_world @ es @ [Print (SkippingFailed (lit ''https://p/a.jpg''))]"
    by blast
  moreover have "download_image failing_net (lit ''https://p/a.jpg'', lit ''Images/C/A/1_a.jpg'')
      fresh_world =
     Ok () \<lparr>dirs = {}, files = [lit ''Images/C/A/1_a.jpg'' \<mapsto> ''xy''], sent = 3,
        trace = [Get (lit ''https://p/a.jpg''), Print (AttemptFailed 1 (lit ''https://p/a.jpg'')),
                 Sleep 2,
                 Get (lit ''https://p/a.jpg''), Print (AttemptFailed 2 (lit ''https://p/a.jpg'')),
                 Sleep 2,
                 Get (lit ''https://p/a.jpg''), OpenWrite (lit ''Images/C/A/1_a.jpg''),
                 Print (AttemptFailed 3 (lit ''https://p/a.jpg'')), Sleep 2,
                 Print (SkippingFailed (lit ''https://p/a.jpg''))]\<rparr>"
    by (simp add: io_defs failing_net_def fresh_world_def lit_def)
  ultimately show ?thesis by simp
qed

text \<open>
  Claim C2, as stated, fails: an item whose three attempts all break off while the body
  is streamed leaves a file with the bytes received so far at its destination path.
\<close>

theorem partial_file_counterexample:
  "files fresh_world (lit ''Images/C/A/1_a.jpg'') = None \<and>
   download_image truncating_net (lit ''https://p/a.jpg'', lit ''Images/C/A/1_a.jpg'') fresh_world =
     Ok () \<lparr>dirs = {}, files = [lit ''Images/C/A/1_a.jpg'' \<mapsto> ''abc''], sent = 3,
        trace = [Get (lit ''https://p/a.jpg''), OpenWrite (lit ''Images/C/A/1_a.jpg''), Print (AttemptFailed 1 (lit ''https://p/a.jpg'')), Sleep 2,
                 Get (lit ''https://p/a.jpg''), OpenWrite (lit ''Images/C/A/1_a.jpg''), Print (AttemptFailed 2 (lit ''https://p/a.jpg'')), Sleep 2,
                 Get (lit ''https://p/a.jpg''), OpenWrite (lit ''Images/C/A/1_a.jpg''), Print (AttemptFailed 3 (lit ''https://p/a.jpg'')), Sleep 2,
                 Print (SkippingFailed (lit ''https://p/a.jpg''))]\<rparr>"
  by (simp add: io_defs truncating_net_def fresh_world_def lit_def)

text \<open>
  Claim C2, amended.  When every attempt for an item fails before the body is read (the
  request raises or the status is an error), \<open>download_image\<close> returns normally and
  leaves the files and directories as they were, so no file appears at the destination
  path, and the pool goes on with the remaining items.
\<close>

theorem download_image_refused_keeps_files:
  assumes "\<forall>k < 3. refused (net (sent w + k) image_url)"
  shows "\<exists>w'. download_image net (image_url, save_path) w = Ok () w' \<and>
           files w' = files w \<and> dirs w' = dirs w \<and>
           executor_map (download_image net) ((image_url, save_path) # rest) w =
             executor_map (download_image net) rest w'"
proof -
  have "\<forall>k < length [0::nat, 1, 2]. refused (net (sent w + k) image_url)"
    using assms by simp
  with attempts_all_refused [of "[0, 1, 2]" net w image_url save_path]
  obtain w' where "attempts net image_url save_path [0, 1, 2] w = Ok () w'"
    and "files w' = files w" and "dirs w' = dirs w"
    by blast
  then show ?thesis
    by (simp add: download_image_def three_attempts world_of_def)
qed

theorem download_image_refused_keeps_files_witness:
  "download_image refusing_net (lit ''https://p/a.jpg'', lit ''Images/C/A/1_a.jpg'') fresh_world =
     Ok () \<lparr>dirs = {}, files = Map.empty, sent = 3,
        trace = [Get (lit ''https://p/a.jpg''), Print (AttemptFailed 1 (lit ''https://p/a.jpg'')), Sleep 2,
                 Get (lit ''https://p/a.jpg''), Print (AttemptFailed 2 (lit ''https://p/a.jpg'')), Sleep 2,
                 Get (lit ''https://p/a.jpg''), Print (AttemptFailed 3 (lit ''https://p/a.jpg'')), Sleep 2,
                 Print (SkippingFailed (lit ''https://p/a.jpg''))]\<rparr> \<and>
   files fresh_world (lit ''Images/C/A/1_a.jpg'') = None"
proof -
  have h: "\<forall>k < 3. refused (refusing_net (sent fresh_world + k) (lit ''https://p/a.jpg''))"
    by (simp add: refused_def refusing_net_def raises_for_status_def)
  from download_image_refused_keeps_files [of refusing_net fresh_world "lit ''https://p/a.jpg''" "lit ''Images/C/A/1_a.jpg''" "[]"] h
  obtain w' where "download_image refusing_net (lit ''https://p/a.jpg'', lit ''Images/C/A/1_a.jpg'') fresh_world = Ok () w'"
    and "files w' = files fresh_world"
    by blast
  moreover have "download_image refusing_net (lit ''https://p/a.jpg'', lit ''Images/C/A/1_a.jpg'') fresh_world =
     Ok () \<lparr>dirs = {}, files = Map.empty, sent = 3,
        trace = [Get (lit ''https://p/a.jpg''), Print (AttemptFailed 1 (lit ''https://p/a.jpg'')), Sleep 2,
                 Get (lit ''https://p/a.jpg''), Print (AttemptFailed 2 (lit ''https://p/a.jpg'')), Sleep 2,
                 Get (lit ''https://p/a.jpg''), Print (AttemptFailed 3 (lit ''https://p/a.jpg'')), Sleep 2,
                 Print (SkippingFailed (lit ''https://p/a.jpg''))]\<rparr>"
    by (simp add: io_defs refusing_net_def fresh_world_def lit_def)
  ultimately show ?thesis by (simp add: fresh_world_def)
qed

section \<open>Properties of the entry point\<close>

lemma fold_upd_absent:
  "key \<notin> fst ` set kvs \<Longrightarrow> fold (\<lambda>kv d. d(fst kv \<mapsto> snd kv)) kvs d key = d key"
  by (induction kvs arbitrary: d) auto

lemma dict_row_absent:
  assumes "key \<notin> set fieldnames"
  shows "dict_row fieldnames row key = None"
proof -
  have "key \<notin> fst ` set (zip fieldnames (map Some row) @
          map (\<lambda>key. (key, None)) (drop (length row) fieldnames))"
    using assms by (auto dest: set_zip_leftD in_set_dropD)
  from fold_upd_absent [OF this, of Map.empty] show ?thesis
    unfolding dict_row_def by simp
qed

lemma collect_links_absent:
  "\<forall>row \<in> set rows. row (lit ''URL'') = None \<Longrightarrow> collect_links rows = Inr []"
  by (induction rows) simp_all

text \<open>
  Claim C3 fails on the code.  For an input table whose header has no field \<^verbatim>\<open>URL\<close>,
  the filter \<^verbatim>\<open>if "URL" in row\<close> drops every row, so the handler of \<^verbatim>\<open>KeyError\<close>
  never runs: nothing is reported, and the run prints that all images were downloaded.
\<close>

theorem missing_url_column_completes:
  assumes "lit ''URL'' \<notin> set fieldnames"
  shows "download_images_from_yupoo_main U net (Some (fieldnames # rows)) w =
           Ok () (print AllDownloaded w)"
proof -
  have "collect_links (dict_reader (fieldnames # rows)) = Inr []"
    by (rule collect_links_absent) (auto simp: dict_reader_def dict_row_absent [OF assms])
  then show ?thesis
    by (simp add: download_images_from_yupoo_main_def read_links_def)
qed

theorem missing_url_column_completes_witness:
  "download_images_from_yupoo_main cjk_db dead_net (Some no_url_table) fresh_world =
     Ok () \<lparr>dirs = {}, files = Map.empty, sent = 0, trace = [Print AllDownloaded]\<rparr>"
proof -
  have "lit ''URL'' \<notin> set [lit ''Link'']" by (simp add: lit_def)
  from missing_url_column_completes [OF this]
  show ?thesis by (simp add: no_url_table_def print_def fresh_world_def)
qed

lemma for_each_append:
  "for_each body (xs @ ys) w =
     (case for_each body xs w of Raised e w1 \<Rightarrow> Raised e w1 | Ok _ w1 \<Rightarrow> for_each body ys w1)"
  by (induction xs arbitrary: w) (simp_all split: result.splits)

lemma process_seed_bad: "bad_seed seed \<Longrightarrow> process_seed U net seed w = Raised AttributeError w"
  by (auto simp: bad_seed_def process_seed_def match_base_domain_def split: option.splits)

lemma for_each_hits_bad:
  assumes "bad_seed seed"
  shows "\<exists>e w'. for_each (process_seed U net) (before @ seed # after) w = Raised e w'"
  by (cases "for_each (process_seed U net) before w")
     (simp_all add: for_each_append process_seed_bad [OF assms])

text \<open>
  Claim C9, amended.  A seed whose cell is missing, or whose URL does not begin with
  \<^verbatim>\<open>https://\<close> after \<^verbatim>\<open>strip\<close>, makes the body of the loop raise
  \<^verbatim>\<open>AttributeError\<close> before anything is printed or fetched for it.  A run whose
  links hold such a seed ends in an uncaught exception, and when the seeds before it were
  processed without exception that exception is this \<^verbatim>\<open>AttributeError\<close>.
\<close>

theorem bad_seed_aborts_run:
  assumes "read_links input_file = Inr (before @ seed # after)" and "bad_seed seed"
  shows "process_seed U net seed w1 = Raised AttributeError w1 \<and>
         (\<exists>e w'. download_images_from_yupoo_main U net input_file w = Raised e w') \<and>
         (for_each (process_seed U net) before w = Ok () w1 \<longrightarrow>
            download_images_from_yupoo_main U net input_file w = Raised AttributeError w1)"
proof -
  have a: "process_seed U net seed w1 = Raised AttributeError w1"
    using assms(2) by (rule process_seed_bad)
  obtain e w' where "for_each (process_seed U net) (before @ seed # after) w = Raised e w'"
    using for_each_hits_bad [OF assms(2)] by blast
  then have b: "\<exists>e w'. download_images_from_yupoo_main U net input_file w = Raised e w'"
    by (simp add: download_images_from_yupoo_main_def assms(1))
  have c: "for_each (process_seed U net) before w = Ok () w1 \<longrightarrow>
            download_images_from_yupoo_main U net input_file w = Raised AttributeError w1"
    by (simp add: download_images_from_yupoo_main_def assms(1) for_each_append a)
  from a b c show ?thesis by blast
qed

lemmas table_defs = read_links_def dict_reader_def dict_row_def

theorem bad_seed_aborts_run_witness:
  "read_links (Some http_table) = Inr [Some (lit ''http://x.yupoo.com/categories/1'')] \<and>
   bad_seed (Some (lit ''http://x.yupoo.com/categories/1'')) \<and>
   download_images_from_yupoo_main cjk_db dead_net (Some http_table) fresh_world =
     Raised AttributeError fresh_world"
proof -
  have r: "read_links (Some http_table) = Inr ([] @ Some (lit ''http://x.yupoo.com/categories/1'') # [])"
    by (simp add: table_defs http_table_def lit_def)
  have b: "bad_seed (Some (lit ''http://x.yupoo.com/categories/1''))"
    by (simp add: bad_seed_def startswith_def eval_defs)
  from bad_seed_aborts_run [OF r b, of cjk_db dead_net fresh_world fresh_world]
  show ?thesis using r b by simp
qed

text \<open>
  Claim C9, as stated, fails: a seed with a blank before \<^verbatim>\<open>https://\<close> does not start
  with \<^verbatim>\<open>https://\<close>, yet the run trims it, fetches the category and completes.
\<close>

theorem padded_https_seed_counterexample:
  "\<not> startswith (lit '' https://x.yupoo.com/categories/1'') (lit ''https://'') \<and>
   read_links (Some padded_table) = Inr [Some (lit '' https://x.yupoo.com/categories/1'')] \<and>
   download_images_from_yupoo_main cjk_db dead_net (Some padded_table) fresh_world =
     Ok () \<lparr>dirs = {}, files = Map.empty, sent = 1,
       trace = [Print (FetchingCategory (lit ''https://x.yupoo.com/categories/1'')),
                Get (lit ''https://x.yupoo.com/categories/1''),
                Print FailedCategory, Print AllDownloaded]\<rparr>"
  by (simp add: table_defs padded_table_def download_images_from_yupoo_main_def process_seed_def
        match_base_domain_def startswith_def get_document_def dead_net_def request_def print_def
        fresh_world_def eval_defs)

section \<open>Properties of the page parser\<close>

lemma match_digits_sound:
  "match_digits U r = Some ds \<Longrightarrow>
     ds \<noteq> [] \<and> list_all (isdecimal U) ds \<and> (\<exists>post. r = ds @ [39029] @ post)"
proof (induction r arbitrary: ds)
  case Nil
  then show ?case by simp
next
  case (Cons c r)
  from Cons.prems have dec: "isdecimal U c" by (simp split: if_splits)
  show ?case
  proof (cases "match_digits U r")
    case (Some ds')
    with Cons.prems dec have "ds = c # ds'" by simp
    moreover from Cons.IH [OF Some]
    have "list_all (isdecimal U) ds'" and "\<exists>post. r = ds' @ [39029] @ post" by simp_all
    ultimately show ?thesis using dec by auto
  next
    case None
    with Cons.prems dec obtain post where "r = 39029 # post" and "ds = [c]"
      by (cases r) (auto split: if_splits)
    then show ?thesis using dec by simp
  qed
qed

lemma match_digits_complete:
  "ds \<noteq> [] \<Longrightarrow> list_all (isdecimal U) ds \<Longrightarrow> match_digits U (ds @ 39029 # post) \<noteq> None"
proof (induction ds)
  case Nil
  then show ?case by simp
next
  case (Cons c ds)
  show ?case
  proof (cases ds)
    case Nil
    with Cons.prems show ?thesis by (simp split: option.splits)
  next
    case (Cons c' ds')
    with Cons.IH Cons.prems have "match_digits U (ds @ 39029 # post) \<noteq> None" by simp
    with Cons.prems show ?thesis by auto
  qed
qed

lemma search_total_sound: "search_total U s = Some ds \<Longrightarrow> has_total_marker U s"
proof (induction s)
  case Nil
  then show ?case by simp
next
  case (Cons c s)
  show ?case
  proof (cases "c = 20849 \<and> match_digits U s = Some ds")
    case True
    then obtain post where "ds \<noteq> []" "list_all (isdecimal U) ds" "s = ds @ [39029] @ post"
      using match_digits_sound by blast
    then have "ds \<noteq> [] \<and> list_all (isdecimal U) ds \<and> c # s = [] @ [20849] @ ds @ [39029] @ post"
      using True by simp
    then show ?thesis unfolding has_total_marker_def by blast
  next
    case False
    with Cons.prems have "search_total U s = Some ds"
      by (auto split: if_splits option.splits)
    from Cons.IH [OF this] obtain pre ds' post where
      "ds' \<noteq> []" "list_all (isdecimal U) ds'" "s = pre @ [20849] @ ds' @ [39029] @ post"
      unfolding has_total_marker_def by blast
    then have "ds' \<noteq> [] \<and> list_all (isdecimal U) ds' \<and>
        c # s = (c # pre) @ [20849] @ ds' @ [39029] @ post" by simp
    then show ?thesis unfolding has_total_marker_def by blast
  qed
qed

lemma search_total_complete_aux:
  "ds \<noteq> [] \<Longrightarrow> list_all (isdecimal U) ds \<Longrightarrow>
     search_total U (pre @ [20849] @ ds @ [39029] @ post) \<noteq> None"
proof (induction pre)
  case Nil
  with match_digits_complete [of ds U post] show ?case by auto
next
  case (Cons c pre)
  then show ?case by (auto split: option.splits)
qed

lemma search_total_None_iff: "search_total U s = None \<longleftrightarrow> \<not> has_total_marker U s"
proof
  assume "search_total U s = None"
  then show "\<not> has_total_marker U s"
    unfolding has_total_marker_def using search_total_complete_aux by blast
next
  assume "\<not> has_total_marker U s"
  then show "search_total U s = None"
    using search_total_sound by (cases "search_total U s") auto
qed

lemma soup_find_None_iff:
  "soup_find matches n = None \<longleftrightarrow> (\<forall>d \<in> set (descendants n). \<not> matches d)"
proof -
  have "soup_find matches n = None \<longleftrightarrow> filter matches (descendants n) = []"
    by (simp add: soup_find_def soup_find_all_def split: list.splits)
  then show ?thesis by (simp add: filter_empty_conv)
qed

lemma soup_find_Some:
  "soup_find matches n = Some d \<Longrightarrow> d \<in> set (descendants n) \<and> matches d"
proof -
  assume "soup_find matches n = Some d"
  then obtain rest where "filter matches (descendants n) = d # rest"
    by (auto simp: soup_find_def soup_find_all_def split: list.splits)
  then have "d \<in> set (filter matches (descendants n))" by simp
  then show ?thesis by simp
qed

text \<open>
  Claim C6.  When the document has no pagination form, or when no \<^verbatim>\<open>span\<close> inside the
  pagination form that \<^verbatim>\<open>find\<close> returns has a string containing the page-count marker,
  \<open>get_total_pages\<close> returns 1.
\<close>

theorem get_total_pages_default:
  assumes "(\<forall>n \<in> set (descendants soup). \<not> is_pagination_form n) \<or>
           (\<exists>pagination_form. soup_find is_pagination_form soup = Some pagination_form \<and>
              (\<forall>n \<in> set (descendants pagination_form).
                 is_tag (lit ''span'') n \<longrightarrow>
                   (case node_string n of None \<Rightarrow> True | Some s \<Rightarrow> \<not> has_total_marker U s)))"
  shows "get_total_pages U soup = 1"
  using assms
proof
  assume "\<forall>n \<in> set (descendants soup). \<not> is_pagination_form n"
  then have "soup_find is_pagination_form soup = None" by (simp add: soup_find_None_iff)
  then show ?thesis by (simp add: get_total_pages_def)
next
  assume "\<exists>pagination_form. soup_find is_pagination_form soup = Some pagination_form \<and>
              (\<forall>n \<in> set (descendants pagination_form).
                 is_tag (lit ''span'') n \<longrightarrow>
                   (case node_string n of None \<Rightarrow> True | Some s \<Rightarrow> \<not> has_total_marker U s))"
  then obtain pagination_form where f: "soup_find is_pagination_form soup = Some pagination_form"
    and m: "\<forall>n \<in> set (descendants pagination_form).
                 is_tag (lit ''span'') n \<longrightarrow>
                   (case node_string n of None \<Rightarrow> True | Some s \<Rightarrow> \<not> has_total_marker U s)"
    by blast
  have "\<forall>n \<in> set (descendants pagination_form). \<not> is_total_span U n"
  proof
    fix n assume "n \<in> set (descendants pagination_form)"
    with m show "\<not> is_total_span U n"
      by (auto simp: is_total_span_def search_total_None_iff split: option.splits)
  qed
  then have "soup_find (is_total_span U) pagination_form = None"
    by (simp add: soup_find_None_iff)
  with f show ?thesis by (simp add: get_total_pages_def)
qed

lemmas soup_defs = soup_find_def soup_find_all_def is_tag_def attr_def has_attr_def has_class_def
  getitem_def

theorem get_total_pages_default_witness:
  "soup_find is_pagination_form bare_marker_page =
     Some (Element (lit ''form'') [(lit ''class'', lit ''pagination__jumpwrap'')]
             [Element (lit ''span'') [] [Text [20849, 39029]],
              Element (lit ''input'') [(lit ''name'', lit ''page'')] []]) \<and>
   search_total cjk_db [20849, 39029] = None \<and>
   get_total_pages cjk_db bare_marker_page = 1"
proof -
  let ?form = "Element (lit ''form'') [(lit ''class'', lit ''pagination__jumpwrap'')]
             [Element (lit ''span'') [] [Text [20849, 39029]],
              Element (lit ''input'') [(lit ''name'', lit ''page'')] []]"
  have f: "soup_find is_pagination_form bare_marker_page = Some ?form"
    by (simp add: bare_marker_page_def is_pagination_form_def soup_defs eval_defs)
  have s: "search_total cjk_db [20849, 39029] = None"
    by (simp add: isdecimal_def digit_value_def cjk_db_def)
  have n: "\<not> has_total_marker cjk_db [20849, 39029]"
    using s search_total_None_iff [of cjk_db "[20849, 39029]"] by blast
  have m: "\<forall>n \<in> set (descendants ?form). is_tag (lit ''span'') n \<longrightarrow>
      (case node_string n of None \<Rightarrow> True | Some s \<Rightarrow> \<not> has_total_marker cjk_db s)"
    using n by (simp add: is_tag_def lit_def)
  from f m have "(\<forall>n \<in> set (descendants bare_marker_page). \<not> is_pagination_form n) \<or>
           (\<exists>pagination_form. soup_find is_pagination_form bare_marker_page = Some pagination_form \<and>
              (\<forall>n \<in> set (descendants pagination_form).
                 is_tag (lit ''span'') n \<longrightarrow>
                   (case node_string n of None \<Rightarrow> True | Some s \<Rightarrow> \<not> has_total_marker cjk_db s)))"
    by blast
  from get_total_pages_default [OF this] f s show ?thesis by simp
qed

section \<open>Properties of the card scan\<close>

lemma getitem_has_attr: "has_attr key n \<Longrightarrow> \<exists>v. attr n key = Some v \<and> getitem n key = Inr v"
  by (auto simp: has_attr_def getitem_def)

text \<open>
  Claim C7.  For a card in which \<^verbatim>\<open>find\<close> returns an image tag and a title tag, both
  attributes exist and the card adds one record whose URL is the source with
  \<^verbatim>\<open>https:\<close> put in front when the source starts with \<^verbatim>\<open>//\<close>, and the source
  itself otherwise.  A card without an image tag carrying \<^verbatim>\<open>data-origin-src\<close>, or
  without an \<^verbatim>\<open>h3\<close> carrying \<^verbatim>\<open>title\<close>, adds no record and prints nothing.
\<close>

theorem process_card_image_url:
  "(soup_find is_img_tag image_card = Some img_tag \<and>
    soup_find is_title_tag image_card = Some title_tag \<longrightarrow>
      (\<exists>image_url image_name.
         attr img_tag (lit ''data-origin-src'') = Some image_url \<and>
         attr title_tag (lit ''title'') = Some image_name \<and>
         process_card U album_folder page image_card image_details w =
           (if startswith image_url (lit ''//'') then
              Ok (image_details @
                    [(lit ''https:'' @ image_url, card_save_path U album_folder page image_name)])
                 (print (ImageUrl (lit ''https:'' @ image_url)) w)
            else
              Ok (image_details @ [(image_url, card_save_path U album_folder page image_name)]) w))) \<and>
   ((\<forall>n \<in> set (descendants image_card). \<not> is_img_tag n) \<or>
    (\<forall>n \<in> set (descendants image_card). \<not> is_title_tag n) \<longrightarrow>
      process_card U album_folder page image_card image_details w = Ok image_details w)"
proof (intro conjI impI)
  assume a: "soup_find is_img_tag image_card = Some img_tag \<and>
    soup_find is_title_tag image_card = Some title_tag"
  then have "is_img_tag img_tag" and "is_title_tag title_tag"
    using soup_find_Some by blast+
  then have "has_attr (lit ''data-origin-src'') img_tag" and "has_attr (lit ''title'') title_tag"
    by (simp_all add: is_img_tag_def is_title_tag_def)
  then obtain image_url image_name
    where u: "attr img_tag (lit ''data-origin-src'') = Some image_url"
        "getitem img_tag (lit ''data-origin-src'') = Inr image_url"
      and t: "attr title_tag (lit ''title'') = Some image_name"
        "getitem title_tag (lit ''title'') = Inr image_name"
    using getitem_has_attr by blast
  have "process_card U album_folder page image_card image_details w =
           (if startswith image_url (lit ''//'') then
              Ok (image_details @
                    [(lit ''https:'' @ image_url, card_save_path U album_folder page image_name)])
                 (print (ImageUrl (lit ''https:'' @ image_url)) w)
            else
              Ok (image_details @ [(image_url, card_save_path U album_folder page image_name)]) w)"
    using a u(2) t(2) by (simp add: process_card_def)
  with u(1) t(1) show "\<exists>image_url image_name.
         attr img_tag (lit ''data-origin-src'') = Some image_url \<and>
         attr title_tag (lit ''title'') = Some image_name \<and>
         process_card U album_folder page image_card image_details w =
           (if startswith image_url (lit ''//'') then
              Ok (image_details @
                    [(lit ''https:'' @ image_url, card_save_path U album_folder page image_name)])
                 (print (ImageUrl (lit ''https:'' @ image_url)) w)
            else
              Ok (image_details @ [(image_url, card_save_path U album_folder page image_name)]) w)"
    by blast
next
  assume "(\<forall>n \<in> set (descendants image_card). \<not> is_img_tag n) \<or>
    (\<forall>n \<in> set (descendants image_card). \<not> is_title_tag n)"
  then have "soup_find is_img_tag image_card = None \<or> soup_find is_title_tag image_card = None"
    by (simp add: soup_find_None_iff)
  then show "process_card U album_folder page image_card image_details w = Ok image_details w"
    by (auto simp: process_card_def split: option.splits)
qed

lemmas path_defs = card_save_path_def image_file_name_def os_path_join_def str_int_def startswith_def

theorem process_card_image_url_witness:
  "process_card cjk_db (lit ''Images/C/A'') 1 relative_card [] fresh_world =
     Ok [(lit ''https://cdn.example.com/a.jpg'', lit ''Images/C/A/1_A.jpg'')]
        (print (ImageUrl (lit ''https://cdn.example.com/a.jpg'')) fresh_world) \<and>
   process_card cjk_db (lit ''Images/C/A'') 1 untitled_card [] fresh_world = Ok [] fresh_world"
proof -
  let ?img = "Element (lit ''img'') [(lit ''data-origin-src'', lit ''//cdn.example.com/a.jpg'')] []"
  let ?h3 = "Element (lit ''h3'') [(lit ''title'', lit ''A'')] [Text (lit ''A'')]"
  have i: "soup_find is_img_tag relative_card = Some ?img"
    by (simp add: relative_card_def is_img_tag_def soup_defs eval_defs)
  have t: "soup_find is_title_tag relative_card = Some ?h3"
    by (simp add: relative_card_def is_title_tag_def soup_defs eval_defs)
  have n: "\<forall>n \<in> set (descendants untitled_card). \<not> is_title_tag n"
    by (simp add: untitled_card_def is_title_tag_def soup_defs eval_defs)
  have p: "card_save_path cjk_db (lit ''Images/C/A'') 1 (lit ''A'') = lit ''Images/C/A/1_A.jpg''"
    by (simp add: path_defs eval_defs)
  have s: "startswith (lit ''//cdn.example.com/a.jpg'') (lit ''//'')"
    by (simp add: startswith_def lit_def)
  have h: "lit ''https:'' @ lit ''//cdn.example.com/a.jpg'' = lit ''https://cdn.example.com/a.jpg''"
    by (simp add: lit_def)
  note th = process_card_image_url [of relative_card ?img ?h3 cjk_db "lit ''Images/C/A''" 1 "[]" fresh_world]
  from th i t obtain image_url image_name
    where a: "attr ?img (lit ''data-origin-src'') = Some image_url"
      and b: "attr ?h3 (lit ''title'') = Some image_name"
      and c: "process_card cjk_db (lit ''Images/C/A'') 1 relative_card [] fresh_world =
           (if startswith image_url (lit ''//'') then
              Ok ([] @ [(lit ''https:'' @ image_url,
                         card_save_path cjk_db (lit ''Images/C/A'') 1 image_name)])
                 (print (ImageUrl (lit ''https:'' @ image_url)) fresh_world)
            else
              Ok ([] @ [(image_url, card_save_path cjk_db (lit ''Images/C/A'') 1 image_name)])
                 fresh_world)"
    by blast
  from a have a': "image_url = lit ''//cdn.example.com/a.jpg''" by (simp add: attr_def)
  from b have b': "image_name = lit ''A''" by (simp add: attr_def)
  have first: "process_card cjk_db (lit ''Images/C/A'') 1 relative_card [] fresh_world =
     Ok [(lit ''https://cdn.example.com/a.jpg'', lit ''Images/C/A/1_A.jpg'')]
        (print (ImageUrl (lit ''https://cdn.example.com/a.jpg'')) fresh_world)"
    unfolding c a' b' by (simp only: s p h if_True append_Nil)
  from process_card_image_url [of untitled_card _ _ cjk_db "lit ''Images/C/A''" 1 "[]" fresh_world] n
  have "process_card cjk_db (lit ''Images/C/A'') 1 untitled_card [] fresh_world = Ok [] fresh_world"
    by blast
  with first show ?thesis by simp
qed

section \<open>Properties of the album crawl\<close>

lemma world_of_simps: "world_of (Ok x w) = w" "world_of (Raised e w) = w"
  by (simp_all add: world_of_def)

lemma try_download_grows:
  "\<exists>es. (case try_download net url path w of
            Succeeded w1 \<Rightarrow> trace w1 = trace w @ es \<and> dirs w1 = dirs w
          | Failed w1 \<Rightarrow> trace w1 = trace w @ es \<and> dirs w1 = dirs w
          | Crashed e w1 \<Rightarrow> trace w1 = trace w @ es \<and> dirs w1 = dirs w)"
  by (auto simp: try_download_def request_def open_wb_def print_def fold_file_write_frame Let_def
      split: get_result.splits)

lemma attempts_grows:
  "\<exists>es. trace (world_of (attempts net url path ns w)) = trace w @ es \<and>
        dirs (world_of (attempts net url path ns w)) = dirs w"
proof (induction ns arbitrary: w)
  case Nil
  show ?case by (simp add: world_of_simps print_def)
next
  case (Cons n ns)
  obtain es where t: "case try_download net url path w of
            Succeeded w1 \<Rightarrow> trace w1 = trace w @ es \<and> dirs w1 = dirs w
          | Failed w1 \<Rightarrow> trace w1 = trace w @ es \<and> dirs w1 = dirs w
          | Crashed e w1 \<Rightarrow> trace w1 = trace w @ es \<and> dirs w1 = dirs w"
    using try_download_grows by blast
  show ?case
  proof (cases "try_download net url path w")
    case (Succeeded w1)
    with t show ?thesis by (simp add: world_of_simps)
  next
    case (Crashed e w1)
    with t show ?thesis by (simp add: world_of_simps)
  next
    case (Failed w1)
    define w2 where "w2 = sleep 2 (print (AttemptFailed (n + 1) url) w1)"
    from Cons.IH [of w2] obtain es2 where
      "trace (world_of (attempts net url path ns w2)) = trace w2 @ es2"
      "dirs (world_of (attempts net url path ns w2)) = dirs w2" by blast
    moreover have "trace w2 = trace w @ es @ [Print (AttemptFailed (n + 1) url), Sleep 2]"
      and "dirs w2 = dirs w"
      using t Failed by (simp_all add: w2_def sleep_def print_def)
    moreover have "attempts net url path (n # ns) w = attempts net url path ns w2"
      using Failed by (simp add: w2_def)
    ultimately show ?thesis by simp
  qed
qed

lemma download_image_grows:
  "\<exists>es. trace (world_of (download_image net item w)) = trace w @ es \<and>
        dirs (world_of (download_image net item w)) = dirs w"
proof (cases item)
  case (Pair url path)
  then show ?thesis
    using attempts_grows [of net url path "[0..<3]" w] by (simp add: download_image_def)
qed

lemma executor_map_grows:
  "\<exists>es. trace (executor_map (download_image net) items w) = trace w @ es \<and>
        dirs (executor_map (download_image net) items w) = dirs w"
proof (induction items arbitrary: w)
  case Nil
  show ?case by simp
next
  case (Cons item items)
  obtain es1 where "trace (world_of (download_image net item w)) = trace w @ es1"
    "dirs (world_of (download_image net item w)) = dirs w"
    using download_image_grows by blast
  moreover obtain es2 where
    "trace (executor_map (download_image net) items (world_of (download_image net item w))) =
       trace (world_of (download_image net item w)) @ es2"
    "dirs (executor_map (download_image net) items (world_of (download_image net item w))) =
       dirs (world_of (download_image net item w))"
    using Cons.IH by blast
  ultimately show ?case by simp
qed

lemma process_card_grows:
  "\<exists>es. trace (world_of (process_card U folder page c ds w)) = trace w @ es \<and>
        dirs (world_of (process_card U folder page c ds w)) = dirs w"
  by (auto simp: process_card_def world_of_simps print_def split: option.splits sum.splits)

lemma card_loop_grows:
  "\<exists>es. trace (world_of (card_loop U folder page cs ds w)) = trace w @ es \<and>
        dirs (world_of (card_loop U folder page cs ds w)) = dirs w"
proof (induction cs arbitrary: ds w)
  case Nil
  show ?case by (simp add: world_of_simps)
next
  case (Cons c cs)
  obtain es1 where p: "trace (world_of (process_card U folder page c ds w)) = trace w @ es1"
    "dirs (world_of (process_card U folder page c ds w)) = dirs w"
    using process_card_grows by blast
  show ?case
  proof (cases "process_card U folder page c ds w")
    case (Raised e w1)
    with p show ?thesis by (simp add: world_of_simps)
  next
    case (Ok ds1 w1)
    from Cons.IH [of ds1 w1] obtain es2 where
      "trace (world_of (card_loop U folder page cs ds1 w1)) = trace w1 @ es2"
      "dirs (world_of (card_loop U folder page cs ds1 w1)) = dirs w1" by blast
    with p Ok show ?thesis by (simp add: world_of_simps)
  qed
qed

lemma get_document_grows:
  "trace (snd (get_document net url w)) = trace w @ [Get url] \<and>
   dirs (snd (get_document net url w)) = dirs w \<and>
   sent (snd (get_document net url w)) = sent w + 1 \<and>
   files (snd (get_document net url w)) = files w"
  by (simp add: get_document_def request_def split: get_result.splits)

lemma album_page_grows:
  "\<exists>es. trace (world_of (album_page U net link title folder page w)) = trace w @ es \<and>
        dirs (world_of (album_page U net link title folder page w)) = dirs w"
proof -
  define w0 where "w0 = print (FetchingAlbumPage title page) w"
  define url where "url = link @ lit ''&page='' @ str_int page"
  obtain d w1 where r: "get_document net url w0 = (d, w1)" by (cases "get_document net url w0")
  have "trace (snd (get_document net url w0)) = trace w0 @ [Get url]"
    "dirs (snd (get_document net url w0)) = dirs w0"
    by (simp_all add: get_document_grows)
  with r have g1: "trace w1 = trace w @ [Print (FetchingAlbumPage title page), Get url]"
    "dirs w1 = dirs w" by (simp_all add: w0_def print_def)
  have ap: "album_page U net link title folder page w =
     (case d of
        None \<Rightarrow> Ok () (print (FailedPageUrl page) w1)
      | Some page_soup \<Rightarrow>
          if soup_find_all is_image_card page_soup = [] then Ok () (print (NoImagesFound page) w1)
          else
            (case card_loop U folder page (soup_find_all is_image_card page_soup) [] w1 of
               Raised e w2 \<Rightarrow> Raised e w2
             | Ok image_details w2 \<Rightarrow>
                 Ok () (executor_map (download_image net) image_details
                          (print (StartingDownloads title page) w2))))"
    using r unfolding album_page_def w0_def url_def by (simp split: option.splits)
  show ?thesis
  proof (cases d)
    case None
    with g1 show ?thesis by (simp add: ap world_of_simps print_def)
  next
    case (Some page_soup)
    show ?thesis
    proof (cases "soup_find_all is_image_card page_soup = []")
      case True
      with g1 Some show ?thesis by (simp add: ap world_of_simps print_def)
    next
      case False
      obtain es2 where c: "trace (world_of (card_loop U folder page (soup_find_all is_image_card page_soup) [] w1)) = trace w1 @ es2"
        "dirs (world_of (card_loop U folder page (soup_find_all is_image_card page_soup) [] w1)) = dirs w1"
        using card_loop_grows by blast
      show ?thesis
      proof (cases "card_loop U folder page (soup_find_all is_image_card page_soup) [] w1")
        case (Raised e w2)
        with g1 Some False c show ?thesis by (simp add: ap world_of_simps)
      next
        case (Ok items w2)
        define w3 where "w3 = print (StartingDownloads title page) w2"
        obtain es3 where e: "trace (executor_map (download_image net) items w3) = trace w3 @ es3"
          "dirs (executor_map (download_image net) items w3) = dirs w3"
          using executor_map_grows by blast
        have "trace w3 = trace w2 @ [Print (StartingDownloads title page)]" "dirs w3 = dirs w2"
          by (simp_all add: w3_def print_def)
        with g1 Some False c Ok e show ?thesis
          by (simp add: ap w3_def [symmetric] world_of_simps)
      qed
    qed
  qed
qed

lemma for_each_grows:
  assumes "\<And>x w. \<exists>es. trace (world_of (body x w)) = trace w @ es \<and> dirs (world_of (body x w)) = dirs w"
  shows "\<exists>es. trace (world_of (for_each body xs w)) = trace w @ es \<and>
              dirs (world_of (for_each body xs w)) = dirs w"
proof (induction xs arbitrary: w)
  case Nil
  show ?case by (simp add: world_of_simps)
next
  case (Cons x xs)
  obtain es1 where p: "trace (world_of (body x w)) = trace w @ es1" "dirs (world_of (body x w)) = dirs w"
    using assms by blast
  show ?case
  proof (cases "body x w")
    case (Raised e w1)
    with p show ?thesis by (simp add: world_of_simps)
  next
    case (Ok u w1)
    from Cons.IH [of w1] obtain es2 where
      "trace (world_of (for_each body xs w1)) = trace w1 @ es2"
      "dirs (world_of (for_each body xs w1)) = dirs w1" by blast
    with p Ok show ?thesis by (simp add: world_of_simps)
  qed
qed


text \<open>
  Claim C10.  \<open>download_images_from_album\<close> calls \<^verbatim>\<open>os.makedirs\<close> on the album
  folder before anything else: when that raises nothing is fetched, and otherwise the
  creation of the folder is the first event, ahead of the request for the album's first
  page, and the folder is a directory afterwards.  When that first request fails, the
  album is skipped with the folder left in place and no file written.
\<close>

theorem album_folder_created_before_fetch:
  "(files w (album_folder_of U base_folder album_title) \<noteq> None \<longrightarrow>
      download_images_from_album U net link album_title base_folder w = Raised FileExistsError w) \<and>
   (files w (album_folder_of U base_folder album_title) = None \<longrightarrow>
      (\<exists>es. trace (world_of (download_images_from_album U net link album_title base_folder w)) =
           trace w @
           [MakeDirs (album_folder_of U base_folder album_title),
            Print (FetchingAlbumMetadata album_title), Get link] @ es) \<and>
      dirs (world_of (download_images_from_album U net link album_title base_folder w)) =
        insert (album_folder_of U base_folder album_title) (dirs w)) \<and>
   (files w (album_folder_of U base_folder album_title) = None \<and> refused (net (sent w) link) \<longrightarrow>
      download_images_from_album U net link album_title base_folder w =
        Ok () (w\<lparr>dirs := insert (album_folder_of U base_folder album_title) (dirs w),
                 sent := sent w + 1,
                 trace := trace w @
                   [MakeDirs (album_folder_of U base_folder album_title),
                    Print (FetchingAlbumMetadata album_title), Get link,
                    Print FailedAlbumUrl]\<rparr>))"
proof -
  let ?folder = "album_folder_of U base_folder album_title"
  let ?D = "download_images_from_album U net link album_title base_folder w"
  have p1: "files w ?folder \<noteq> None \<longrightarrow> ?D = Raised FileExistsError w"
    by (auto simp: download_images_from_album_def makedirs_def)
  have p3: "files w ?folder = None \<and> refused (net (sent w) link) \<longrightarrow> ?D =
        Ok () (w\<lparr>dirs := insert (album_folder_of U base_folder album_title) (dirs w),
                 sent := sent w + 1,
                 trace := trace w @
                   [MakeDirs (album_folder_of U base_folder album_title),
                    Print (FetchingAlbumMetadata album_title), Get link,
                    Print FailedAlbumUrl]\<rparr>)"
    by (auto simp: download_images_from_album_def makedirs_def get_document_def refused_def
        print_def request_def split: get_result.splits)
  have p2: "files w ?folder = None \<longrightarrow>
      (\<exists>es. trace (world_of ?D) =
           trace w @ [MakeDirs ?folder, Print (FetchingAlbumMetadata album_title), Get link] @ es) \<and>
      dirs (world_of ?D) = insert ?folder (dirs w)"
  proof
  assume free: "files w ?folder = None"
  define w1 where "w1 = w\<lparr>dirs := insert ?folder (dirs w), trace := trace w @ [MakeDirs ?folder]\<rparr>"
  define w2 where "w2 = print (FetchingAlbumMetadata album_title) w1"
  obtain d w3 where r: "get_document net link w2 = (d, w3)" by (cases "get_document net link w2")
  have "trace (snd (get_document net link w2)) = trace w2 @ [Get link]"
    "dirs (snd (get_document net link w2)) = dirs w2"
    by (simp_all add: get_document_grows)
  with r have g: "trace w3 = trace w @ [MakeDirs ?folder, Print (FetchingAlbumMetadata album_title), Get link]"
    "dirs w3 = insert ?folder (dirs w)"
    by (simp_all add: w2_def w1_def print_def)
  have D: "?D =
     (case d of
        None \<Rightarrow> Ok () (print FailedAlbumUrl w3)
      | Some album_soup \<Rightarrow>
          (case for_each (album_page U net link album_title ?folder)
                  [1 .. get_total_pages U album_soup]
                  (print (TotalPagesInAlbum album_title (get_total_pages U album_soup)) w3) of
             Raised e w4 \<Rightarrow> Raised e w4
           | Ok _ w4 \<Rightarrow> Ok () (print (AlbumProcessed album_title) w4)))"
    using free r unfolding download_images_from_album_def makedirs_def w2_def w1_def
    by (simp split: option.splits)
  have "(\<exists>es. trace (world_of ?D) = trace w3 @ es) \<and> dirs (world_of ?D) = dirs w3"
  proof (cases d)
    case None
    then show ?thesis by (simp add: D world_of_simps print_def)
  next
    case (Some album_soup)
    define w4 where "w4 = print (TotalPagesInAlbum album_title (get_total_pages U album_soup)) w3"
    have w4: "trace w4 = trace w3 @ [Print (TotalPagesInAlbum album_title (get_total_pages U album_soup))]"
      "dirs w4 = dirs w3" by (simp_all add: w4_def print_def)
    obtain es where f: "trace (world_of (for_each (album_page U net link album_title ?folder)
                  [1 .. get_total_pages U album_soup] w4)) = trace w4 @ es"
      "dirs (world_of (for_each (album_page U net link album_title ?folder)
                  [1 .. get_total_pages U album_soup] w4)) = dirs w4"
      using for_each_grows [of "album_page U net link album_title ?folder"
          "[1 .. get_total_pages U album_soup]" w4] album_page_grows
      by blast
    have D': "?D =
          (case for_each (album_page U net link album_title ?folder)
                  [1 .. get_total_pages U album_soup] w4 of
             Raised e w5 \<Rightarrow> Raised e w5
           | Ok _ w5 \<Rightarrow> Ok () (print (AlbumProcessed album_title) w5))"
      using Some by (simp add: D w4_def)
    show ?thesis
    proof (cases "for_each (album_page U net link album_title ?folder)
                  [1 .. get_total_pages U album_soup] w4")
      case (Raised e w5)
      with f w4 show ?thesis by (simp add: D' world_of_simps)
    next
      case (Ok u w5)
      with f w4 show ?thesis by (simp add: D' world_of_simps print_def)
    qed
  qed
  with g show "(\<exists>es. trace (world_of ?D) =
           trace w @ [MakeDirs ?folder, Print (FetchingAlbumMetadata album_title), Get link] @ es) \<and>
      dirs (world_of ?D) = insert ?folder (dirs w)"
    by auto
  qed
  from p1 p2 p3 show ?thesis by blast
qed

theorem album_folder_created_before_fetch_witness:
  "album_folder_of cjk_db (lit ''Images/C'') (lit ''Spring/Summer'') = lit ''Images/C/Spring_Summer'' \<and>
   files fresh_world (lit ''Images/C/Spring_Summer'') = None \<and>
   refused (dead_net (sent fresh_world) (lit ''https://x.yupoo.com/albums/1?uid=1'')) \<and>
   download_images_from_album cjk_db dead_net (lit ''https://x.yupoo.com/albums/1?uid=1'')
       (lit ''Spring/Summer'') (lit ''Images/C'') fresh_world =
     Ok () \<lparr>dirs = {lit ''Images/C/Spring_Summer''}, files = Map.empty, sent = 1,
        trace = [MakeDirs (lit ''Images/C/Spring_Summer''),
                 Print (FetchingAlbumMetadata (lit ''Spring/Summer'')),
                 Get (lit ''https://x.yupoo.com/albums/1?uid=1''),
                 Print FailedAlbumUrl]\<rparr>"
proof -
  have a: "album_folder_of cjk_db (lit ''Images/C'') (lit ''Spring/Summer'') = lit ''Images/C/Spring_Summer''"
    by (simp add: album_folder_of_def os_path_join_def startswith_def eval_defs)
  have f: "files fresh_world (lit ''Images/C/Spring_Summer'') = None"
    by (simp add: fresh_world_def)
  have r: "refused (dead_net (sent fresh_world) (lit ''https://x.yupoo.com/albums/1?uid=1''))"
    by (simp add: refused_def dead_net_def)
  from album_folder_created_before_fetch [of fresh_world cjk_db "lit ''Images/C''"
      "lit ''Spring/Summer''" dead_net "lit ''https://x.yupoo.com/albums/1?uid=1''"] f r
  have "download_images_from_album cjk_db dead_net (lit ''https://x.yupoo.com/albums/1?uid=1'')
       (lit ''Spring/Summer'') (lit ''Images/C'') fresh_world =
     Ok () (fresh_world\<lparr>dirs := insert (lit ''Images/C/Spring_Summer'') (dirs fresh_world),
                 sent := sent fresh_world + 1,
                 trace := trace fresh_world @
                   [MakeDirs (lit ''Images/C/Spring_Summer''),
                    Print (FetchingAlbumMetadata (lit ''Spring/Summer'')),
                    Get (lit ''https://x.yupoo.com/albums/1?uid=1''),
                    Print FailedAlbumUrl]\<rparr>)"
    unfolding a by blast
  then show ?thesis using a f r by (simp add: fresh_world_def)
qed

section \<open>Properties of the destination paths\<close>

declare str_nat.simps [simp del]

lemma str_nat_digits: "list_all is_ascii_digit (str_nat n)"
proof (induction n rule: str_nat.induct)
  case (1 n)
  show ?case
  proof (cases "n < 10")
    case True
    then show ?thesis by (simp add: str_nat.simps [of n] is_ascii_digit_def)
  next
    case False
    have "n mod 10 < 10" by simp
    then have "is_ascii_digit (48 + n mod 10)" unfolding is_ascii_digit_def by linarith
    with False 1 show ?thesis by (simp add: str_nat.simps [of n])
  qed
qed

lemma str_nat_nonempty: "str_nat n \<noteq> []"
  by (simp add: str_nat.simps [of n])

lemma str_nat_value: "foldl (\<lambda>a c. 10 * a + (c - 48)) 0 (str_nat n) = n"
proof (induction n rule: str_nat.induct)
  case (1 n)
  show ?case
  proof (cases "n < 10")
    case True
    then show ?thesis by (simp add: str_nat.simps [of n])
  next
    case False
    with 1 show ?thesis by (simp add: str_nat.simps [of n])
  qed
qed

lemma str_nat_inject:
  assumes "str_nat m = str_nat n"
  shows "m = n"
proof -
  have "m = foldl (\<lambda>a c. 10 * a + (c - 48)) 0 (str_nat m)" by (simp only: str_nat_value)
  also have "\<dots> = foldl (\<lambda>a c. 10 * a + (c - 48)) 0 (str_nat n)" by (simp only: assms)
  also have "\<dots> = n" by (rule str_nat_value)
  finally show ?thesis .
qed

lemma str_int_page:
  "0 \<le> page \<Longrightarrow> str_int page \<noteq> [] \<and> list_all is_ascii_digit (str_int page)"
  by (simp add: str_int_def str_nat_nonempty str_nat_digits)

lemma str_int_inject:
  assumes "0 \<le> p" and "0 \<le> q" and "str_int p = str_int q"
  shows "p = q"
proof -
  from assms have "str_nat (nat p) = str_nat (nat q)" by (simp add: str_int_def)
  then have "nat p = nat q" by (rule str_nat_inject)
  with assms(1,2) show ?thesis by simp
qed

lemma digit_facts:
  assumes "is_ascii_digit c"
  shows "sanitize_char U c = c" and "\<not> isspace c" and "c \<noteq> 95" and "c \<noteq> 47"
  using assms
  by (auto simp: is_ascii_digit_def sanitize_char_def keep_char_def isalnum_def ascii_isalnum_def
      isspace_def)

lemma underscore_facts: "sanitize_char U 95 = 95" "\<not> isspace 95"
  by (simp_all add: sanitize_char_def keep_char_def isspace_def)

lemma sanitize_page_prefix:
  assumes "ds \<noteq> []" and "list_all is_ascii_digit ds"
  shows "sanitize_folder_name U (ds @ lit ''_'' @ name) =
           ds @ [95] @ rstrip (map (sanitize_char U) name)"
proof -
  obtain d ds' where ds: "ds = d # ds'" using assms(1) by (cases ds) auto
  have m: "map (sanitize_char U) ds = ds"
    using assms(2) by (intro map_idI) (simp add: list_all_iff digit_facts(1))
  have nosp: "\<not> isspace d" using assms(2) ds by (simp add: digit_facts(2))
  let ?t = "map (sanitize_char U) name"
  have "map (sanitize_char U) (ds @ lit ''_'' @ name) = ds @ 95 # ?t"
    by (simp add: m lit_def underscore_facts)
  moreover have "lstrip (ds @ 95 # ?t) = ds @ 95 # ?t"
    using nosp by (simp add: lstrip_def ds)
  moreover have "rstrip (ds @ 95 # ?t) = ds @ 95 # rstrip ?t"
  proof -
    have "dropWhile isspace (rev ?t @ 95 # rev ds) = dropWhile isspace (rev ?t) @ 95 # rev ds"
      by (rule dropWhile_append3) (rule underscore_facts(2))
    then show ?thesis by (simp add: rstrip_def)
  qed
  ultimately show ?thesis by (simp add: sanitize_folder_name_def strip_def)
qed

lemma split_at_underscore:
  assumes "95 \<notin> set xs" and "95 \<notin> set ys" and "xs @ 95 # a = ys @ (95::nat) # b"
  shows "xs = ys \<and> a = b"
proof -
  have "takeWhile (\<lambda>c. c \<noteq> 95) (xs @ 95 # a) = xs" "takeWhile (\<lambda>c. c \<noteq> 95) (ys @ 95 # b) = ys"
    using assms(1,2) by (simp_all add: takeWhile_append)
  with assms(3) have "xs = ys" by simp
  with assms(3) show ?thesis by simp
qed

lemma hd_digits_no_slash:
  assumes "ds \<noteq> []" and "list_all is_ascii_digit ds"
  shows "hd (ds @ rest) \<noteq> 47"
proof -
  obtain d ds' where ds: "ds = d # ds'" using assms(1) by (cases ds) auto
  with assms(2) have "is_ascii_digit d" by simp
  then have "d \<noteq> 47" by (rule digit_facts(4))
  then show ?thesis by (simp add: ds)
qed

lemma digits_no_underscore: "list_all is_ascii_digit ds \<Longrightarrow> 95 \<notin> set ds"
  by (induction ds) (simp_all add: is_ascii_digit_def)

lemma image_file_name_page:
  assumes "0 \<le> page"
  shows "image_file_name U page name =
           str_int page @ [95] @ rstrip (map (sanitize_char U) name) @ lit ''.jpg''"
  using str_int_page [OF assms]
  by (simp add: image_file_name_def sanitize_page_prefix)

lemma os_path_join_plain:
  assumes "b \<noteq> []" and "hd b \<noteq> 47"
  shows "os_path_join a b = (if a = [] \<or> last a = 47 then a else a @ [47]) @ b"
  using assms by (cases b) (auto simp: os_path_join_def startswith_def)

text \<open>
  Claim C1, amended.  Within one album folder, two image cards on pages numbered from 1
  get the same destination path exactly when they are on the same page and their titles
  agree once every character that is not kept is replaced by an underscore and trailing
  whitespace is removed.  So cards of different pages never share a path, while cards of
  one page with equal titles always do.
\<close>

theorem save_path_collisions:
  assumes "1 \<le> page" and "1 \<le> page'"
  shows "card_save_path U album_folder page image_name =
           card_save_path U album_folder page' image_name' \<longleftrightarrow>
         page = page' \<and>
         rstrip (map (sanitize_char U) image_name) = rstrip (map (sanitize_char U) image_name')"
proof -
  have p: "0 \<le> page" "0 \<le> page'" using assms by simp_all
  let ?x = "rstrip (map (sanitize_char U) image_name)"
  let ?y = "rstrip (map (sanitize_char U) image_name')"
  have n: "image_file_name U page image_name = str_int page @ [95] @ ?x @ lit ''.jpg''"
    "image_file_name U page' image_name' = str_int page' @ [95] @ ?y @ lit ''.jpg''"
    using p by (simp_all add: image_file_name_page)
  have d: "str_int page \<noteq> []" "list_all is_ascii_digit (str_int page)"
    "str_int page' \<noteq> []" "list_all is_ascii_digit (str_int page')"
    using p str_int_page by simp_all
  have h: "hd (image_file_name U page image_name) \<noteq> 47"
    "hd (image_file_name U page' image_name') \<noteq> 47"
    unfolding n using d by (simp_all only: hd_digits_no_slash not_False_eq_True)
  have ne: "image_file_name U page image_name \<noteq> []" "image_file_name U page' image_name' \<noteq> []"
    by (simp_all add: n)
  have "card_save_path U album_folder page image_name =
           card_save_path U album_folder page' image_name' \<longleftrightarrow>
        image_file_name U page image_name = image_file_name U page' image_name'"
    by (simp add: card_save_path_def os_path_join_plain [OF ne(1) h(1)]
        os_path_join_plain [OF ne(2) h(2)])
  also have "\<dots> \<longleftrightarrow> str_int page @ 95 # ?x = str_int page' @ 95 # ?y"
    by (simp add: n)
  also have "\<dots> \<longleftrightarrow> str_int page = str_int page' \<and> ?x = ?y"
  proof -
    have u: "95 \<notin> set (str_int page)" "95 \<notin> set (str_int page')"
      using d by (simp_all add: digits_no_underscore)
    show ?thesis
    proof
      assume "str_int page @ 95 # ?x = str_int page' @ 95 # ?y"
      with u show "str_int page = str_int page' \<and> ?x = ?y" by (rule split_at_underscore)
    next
      assume "str_int page = str_int page' \<and> ?x = ?y"
      then show "str_int page @ 95 # ?x = str_int page' @ 95 # ?y" by simp
    qed
  qed
  also have "\<dots> \<longleftrightarrow> page = page' \<and> ?x = ?y"
  proof -
    have "str_int page = str_int page' \<longleftrightarrow> page = page'"
      using str_int_inject [OF p] by blast
    then show ?thesis by simp
  qed
  finally show ?thesis .
qed


theorem save_path_collisions_witness:
  "card_save_path cjk_db (lit ''Images/C/A'') 1 (lit ''A'') \<noteq>
     card_save_path cjk_db (lit ''Images/C/A'') 2 (lit ''A'') \<and>
   card_save_path cjk_db (lit ''Images/C/A'') 1 (lit ''A/B '') =
     card_save_path cjk_db (lit ''Images/C/A'') 1 (lit ''A_B'')"
proof -
  have "card_save_path cjk_db (lit ''Images/C/A'') 1 (lit ''A'') \<noteq>
     card_save_path cjk_db (lit ''Images/C/A'') 2 (lit ''A'')"
    using save_path_collisions [of 1 2 cjk_db "lit ''Images/C/A''" "lit ''A''" "lit ''A''"]
    by simp
  moreover have "rstrip (map (sanitize_char cjk_db) (lit ''A/B '')) =
      rstrip (map (sanitize_char cjk_db) (lit ''A_B''))"
    by (simp add: eval_defs)
  then have "card_save_path cjk_db (lit ''Images/C/A'') 1 (lit ''A/B '') =
     card_save_path cjk_db (lit ''Images/C/A'') 1 (lit ''A_B'')"
    using save_path_collisions [of 1 1 cjk_db "lit ''Images/C/A''" "lit ''A/B ''" "lit ''A_B''"]
    by simp
  ultimately show ?thesis by simp
qed

text \<open>
  Claim C1, as stated, fails: two cards of one page with the title \<^verbatim>\<open>A\<close> and
  different images are both assigned \<^verbatim>\<open>Images/C/Spring_Summer/1_A.jpg\<close>.
\<close>

theorem same_title_counterexample:
  "card_loop cjk_db (lit ''Images/C/Spring_Summer'') 1 (soup_find_all is_image_card twin_page) []
     fresh_world =
   Ok [(lit ''https://cdn.example.com/a.jpg'', lit ''Images/C/Spring_Summer/1_A.jpg''),
       (lit ''https://cdn.example.com/b.jpg'', lit ''Images/C/Spring_Summer/1_A.jpg'')]
      (print (ImageUrl (lit ''https://cdn.example.com/b.jpg''))
         (print (ImageUrl (lit ''https://cdn.example.com/a.jpg'')) fresh_world))"
proof -
  let ?c1 = "Element (lit ''div'') [(lit ''class'', lit ''showalbum__children image__main'')]
          [Element (lit ''img'') [(lit ''data-origin-src'', lit ''//cdn.example.com/a.jpg'')] [],
           Element (lit ''h3'') [(lit ''title'', lit ''A'')] []]"
  let ?c2 = "Element (lit ''div'') [(lit ''class'', lit ''showalbum__children image__main'')]
          [Element (lit ''img'') [(lit ''data-origin-src'', lit ''//cdn.example.com/b.jpg'')] [],
           Element (lit ''h3'') [(lit ''title'', lit ''A'')] []]"
  have cards: "soup_find_all is_image_card twin_page = [?c1, ?c2]"
    by (simp add: twin_page_def is_image_card_def soup_defs eval_defs)
  have p: "card_save_path cjk_db (lit ''Images/C/Spring_Summer'') 1 (lit ''A'') =
      lit ''Images/C/Spring_Summer/1_A.jpg''"
    by (simp add: path_defs eval_defs str_nat.simps)
  have one: "process_card cjk_db (lit ''Images/C/Spring_Summer'') 1 ?c1 [] fresh_world =
      Ok [(lit ''https://cdn.example.com/a.jpg'', lit ''Images/C/Spring_Summer/1_A.jpg'')]
         (print (ImageUrl (lit ''https://cdn.example.com/a.jpg'')) fresh_world)"
    unfolding process_card_def p [symmetric]
    by (simp add: is_img_tag_def is_title_tag_def soup_defs startswith_def lit_def)
  have two: "process_card cjk_db (lit ''Images/C/Spring_Summer'') 1 ?c2
        [(lit ''https://cdn.example.com/a.jpg'', lit ''Images/C/Spring_Summer/1_A.jpg'')]
        (print (ImageUrl (lit ''https://cdn.example.com/a.jpg'')) fresh_world) =
      Ok [(lit ''https://cdn.example.com/a.jpg'', lit ''Images/C/Spring_Summer/1_A.jpg''),
          (lit ''https://cdn.example.com/b.jpg'', lit ''Images/C/Spring_Summer/1_A.jpg'')]
         (print (ImageUrl (lit ''https://cdn.example.com/b.jpg''))
            (print (ImageUrl (lit ''https://cdn.example.com/a.jpg'')) fresh_world))"
    unfolding process_card_def p [symmetric]
    by (simp add: is_img_tag_def is_title_tag_def soup_defs startswith_def lit_def)
  show ?thesis unfolding cards by (simp add: one two)
qed

end
